theory Spec2Isabelle
  imports Main "HOL-Library.Word" "HOL-Library.Char_ord" "HOL-Library.List_Lexorder"
begin

chapter \<open>STF: a shallow embedding of \<^verbatim>\<open>stf.h\<close>\<close>

text \<open>
  The header declares three things inside namespace \<^verbatim>\<open>Fox\<close>: the test case
  \<^verbatim>\<open>DTestCase\<close>, the suite \<^verbatim>\<open>AutomatedTestInstance\<close> and the registry
  \<^verbatim>\<open>AutomationTester\<close>. Member functions become functions on a record of the members;
  a member \<^verbatim>\<open>_x\<close> is the field \<open>x\<close> (an Isabelle name cannot start with an underscore).
  A call either returns, or ends the process; the second is a value \<open>Inl (e, w)\<close> that
  carries what had been written to the streams until then.
\<close>

section \<open>Build variant, errors, streams\<close>

text \<open>
  \<^verbatim>\<open>assert(c)\<close> is a macro: compiled without \<^verbatim>\<open>NDEBUG\<close> it ends the process when
  \<open>c\<close> is false, compiled with \<^verbatim>\<open>NDEBUG\<close> it is empty. Both variants are kept, as the
  field \<open>NDEBUG\<close> of the build.

  The text \<^verbatim>\<open>operator<<\<close> prints for a \<^verbatim>\<open>float\<close> depends on the C++ library (the spelling
  of infinities and NaNs is its choice); it is a parameter of the build, the field
  \<open>float_text\<close>.
\<close>

datatype error = AssertionFailed | UndefinedBehaviour

type_synonym float32 = "32 word"

record build =
  NDEBUG :: bool
  float_text :: "float32 \<Rightarrow> string"

definition assert_aborts :: "build \<Rightarrow> bool \<Rightarrow> bool" where
  \<comment> \<open>\<^verbatim>\<open>assert(c)\<close> ends the process\<close>
  "assert_aborts b c = (\<not> NDEBUG b \<and> \<not> c)"

definition TEXT_RED :: string where
  "TEXT_RED = CHR 0x1B # ''[31m''"

definition TEXT_GREEN :: string where
  "TEXT_GREEN = CHR 0x1B # ''[32m''"

definition TEXT_WHITE :: string where
  "TEXT_WHITE = CHR 0x1B # ''[37m''"

definition ENDLINE :: char where
  "ENDLINE = CHR 0x0A"

text \<open>Decimal text of an integer, as \<^verbatim>\<open>operator<<\<close> prints it with the default flags.\<close>

fun dec_nat :: "nat \<Rightarrow> string" where
  "dec_nat n =
     (if n < 10 then [''0123456789'' ! n]
      else dec_nat (n div 10) @ [''0123456789'' ! (n mod 10)])"

declare dec_nat.simps [simp del]

definition dec_int :: "int \<Rightarrow> string" where
  "dec_int i = (if i < 0 then CHR ''-'' # dec_nat (nat (- i)) else dec_nat (nat i))"

text \<open>
  A \<^verbatim>\<open>std::stringstream\<close>: its characters and whether its state is \<^verbatim>\<open>goodbit\<close>.
  \<^verbatim>\<open>str()\<close> reads the characters, \<^verbatim>\<open>clear()\<close> sets the state to \<^verbatim>\<open>goodbit\<close>,
  \<^verbatim>\<open>operator<<\<close> appends only in a good state.
\<close>

record stringstream =
  buffer :: string
  good :: bool

definition str :: "stringstream \<Rightarrow> string" where
  "str ss = buffer ss"

definition clear :: "stringstream \<Rightarrow> stringstream" where
  "clear ss = ss\<lparr>good := True\<rparr>"

definition put :: "string \<Rightarrow> stringstream \<Rightarrow> stringstream" where
  "put txt ss = (if good ss then ss\<lparr>buffer := buffer ss @ txt\<rparr> else ss)"

section \<open>binary32 and \<^verbatim>\<open>__floatsAlmostSame\<close>\<close>

text \<open>
  A \<^verbatim>\<open>float\<close> is its 32 bits (IEEE 754 binary32): sign, 8 bits of exponent, 23 bits of
  fraction. Every finite value is a whole multiple of \<open>2^-149\<close>, so a finite value is kept
  as that multiple, an integer: \<open>Finite n\<close> is \<open>n * 2^-149\<close>. \<open>Infinite neg\<close> is the infinity
  of that sign. The two zeros have the same value.
\<close>

datatype float_value = Finite int | Infinite bool | NaN

definition float_sign :: "float32 \<Rightarrow> bool" where
  "float_sign x = (unat x div 2 ^ 31 = 1)"

definition float_exponent :: "float32 \<Rightarrow> nat" where
  "float_exponent x = unat x div 2 ^ 23 mod 2 ^ 8"

definition float_fraction :: "float32 \<Rightarrow> nat" where
  "float_fraction x = unat x mod 2 ^ 23"

definition float_value_of :: "float32 \<Rightarrow> float_value" where
  "float_value_of x =
     (if float_exponent x = 255 then (if float_fraction x = 0 then Infinite (float_sign x) else NaN)
      else
        (let m = (if float_exponent x = 0 then float_fraction x
                  else (2 ^ 23 + float_fraction x) * 2 ^ (float_exponent x - 1))
         in Finite (if float_sign x then - int m else int m)))"

text \<open>
  Rounding to nearest, ties to even (the default rounding of float arithmetic): a magnitude
  of more than 24 bits keeps its 24 leading bits. A result above \<^verbatim>\<open>FLT_MAX\<close> is an
  infinity.
\<close>

fun bit_length :: "nat \<Rightarrow> nat" where
  "bit_length n = (if n = 0 then 0 else Suc (bit_length (n div 2)))"

declare bit_length.simps [simp del]

definition round_magnitude :: "nat \<Rightarrow> nat" where
  "round_magnitude n =
     (let k = bit_length n in
      if k \<le> 24 then n
      else
        (let sh = k - 24; q = n div 2 ^ sh; r = n mod 2 ^ sh
         in (if 2 * r > 2 ^ sh \<or> (2 * r = 2 ^ sh \<and> odd q) then q + 1 else q) * 2 ^ sh))"

definition FLT_MAX_units :: nat where
  "FLT_MAX_units = (2 ^ 24 - 1) * 2 ^ 253"

definition float_round :: "int \<Rightarrow> float_value" where
  "float_round d =
     (let m = round_magnitude (nat \<bar>d\<bar>) in
      if m > FLT_MAX_units then Infinite (d < 0)
      else Finite (if d < 0 then - int m else int m))"

text \<open>\<^verbatim>\<open>a - b\<close> and \<^verbatim>\<open><\<close> on floats.\<close>

fun float_sub :: "float_value \<Rightarrow> float_value \<Rightarrow> float_value" where
  "float_sub (Finite x) (Finite y) = float_round (x - y)"
| "float_sub (Finite x) (Infinite neg) = Infinite (\<not> neg)"
| "float_sub (Infinite neg) (Finite y) = Infinite neg"
| "float_sub (Infinite neg) (Infinite neg') = (if neg = neg' then NaN else Infinite neg)"
| "float_sub NaN y = NaN"
| "float_sub x NaN = NaN"

fun float_less :: "float_value \<Rightarrow> float_value \<Rightarrow> bool" where
  "float_less (Finite x) (Finite y) = (x < y)"
| "float_less (Finite x) (Infinite neg) = (\<not> neg)"
| "float_less (Infinite neg) (Finite y) = neg"
| "float_less (Infinite neg) (Infinite neg') = (neg \<and> \<not> neg')"
| "float_less NaN y = False"
| "float_less x NaN = False"

text \<open>
  Modelled from the spec: \<^verbatim>\<open>glm::abs\<close>. The header \<^verbatim>\<open>glm/gtx/string_cast.hpp\<close> is not among
  the sources; the spec writes the comparison as \<open>|a-b| < epsilon\<close>, so \<^verbatim>\<open>glm::abs\<close> is the
  absolute value.
\<close>

fun glm_abs :: "float_value \<Rightarrow> float_value" where
  "glm_abs (Finite x) = Finite \<bar>x\<bar>"
| "glm_abs (Infinite neg) = Infinite False"
| "glm_abs NaN = NaN"

definition FLT_EPSILON :: float32 where
  \<comment> \<open>\<^verbatim>\<open>std::numeric_limits<float>().epsilon()\<close>, which is \<open>2^-23\<close>\<close>
  "FLT_EPSILON = 0x34000000"

definition floatsAlmostSame :: "float32 \<Rightarrow> float32 \<Rightarrow> float32 \<Rightarrow> bool" where
  "floatsAlmostSame a b epsilon =
     float_less (glm_abs (float_sub (float_value_of a) (float_value_of b))) (float_value_of epsilon)"

text \<open>
  The float a compiler makes of a decimal literal with the suffix \<^verbatim>\<open>f\<close>: the binary32 value
  nearest to the fraction \<open>p / q\<close>, ties to even. \<open>float_encode\<close> gives the bits of a
  magnitude that is a binary32 value.
\<close>

definition float_encode :: "nat \<Rightarrow> float32" where
  "float_encode m =
     (if m < 2 ^ 23 then of_nat m
      else
        (let e = bit_length m - 23 in
         if e \<ge> 255 then 0x7F800000
         else of_nat (e * 2 ^ 23 + (m div 2 ^ (e - 1) - 2 ^ 23))))"

definition float_literal :: "nat \<Rightarrow> nat \<Rightarrow> float32" where
  "float_literal p q =
     (let n = p * 2 ^ 149 div q; rest = p * 2 ^ 149 mod q; k = bit_length n in
      if k \<le> 24
      then float_encode (if 2 * rest > q \<or> (2 * rest = q \<and> odd n) then n + 1 else n)
      else
        (let sh = k - 24; m = n div 2 ^ sh; r = n mod 2 ^ sh
         in float_encode
              ((if 2 * r > 2 ^ sh \<or> (2 * r = 2 ^ sh \<and> (rest > 0 \<or> odd m)) then m + 1 else m) *
               2 ^ sh)))"

section \<open>Test cases and their actions\<close>

datatype ETestStatus = NOT_TESTED | PASSED | FAILED

text \<open>
  \<^verbatim>\<open>DTestCase::Func\<close> is a \<^verbatim>\<open>std::function<void(void)>\<close>, in practice a lambda that
  captures \<^verbatim>\<open>this\<close>. The members of the suite are private, so the lambda reaches the suite
  through its public member functions only. An action is the tree of those calls: each
  constructor is one call with its arguments, and the continuation receives what the call
  returns. \<open>Call_OutLog f\<close> is any use of the reference \<^verbatim>\<open>OutLog()\<close> returns, \<open>Write_cerr\<close> is
  \<^verbatim>\<open>std::cerr << ...\<close> (the macros \<^verbatim>\<open>TEST_TRUE\<close>, \<^verbatim>\<open>TEST_FALSE\<close> and
  \<^verbatim>\<open>TEST_TRUE_OR_QUIT\<close> do it), \<open>Subscript_out_of_range\<close> is an out-of-range
  \<^verbatim>\<open>operator[]\<close> in the lambda's own code (the same macros index
  \<^verbatim>\<open>GetTestNames()\<close>), \<open>Return\<close> is the end of the body or a \<^verbatim>\<open>return\<close>.
  Calls of \<^verbatim>\<open>Define\<close>, \<^verbatim>\<open>TestCase\<close>, \<^verbatim>\<open>RunTest\<close> and \<^verbatim>\<open>RunAll\<close> from inside an
  action (re-entering the runner) are left out, as are exceptions.
\<close>

datatype action =
    Return
  | Call_ResetFlags action
  | Call_TestTrue bool "bool \<Rightarrow> action"
  | Call_TestFalse bool "bool \<Rightarrow> action"
  | Call_TestEqual_int "32 word" "32 word" "bool \<Rightarrow> action"
  | Call_TestEqual_unsigned "32 word" "32 word" "bool \<Rightarrow> action"
  | Call_TestEqual_float float32 float32 "bool \<Rightarrow> action"
  | Call_GetTestNames "string list \<Rightarrow> action"
  | Call_GetResult string "ETestStatus \<Rightarrow> action"
  | Call_GetResults "ETestStatus list \<Rightarrow> action"
  | Call_GetCurrentRunningTest "int \<Rightarrow> action"
  | Call_GetLog "string \<Rightarrow> action"
  | Call_ResetLog action
  | Call_OutLog "stringstream \<Rightarrow> stringstream" action
  | Write_cerr string action
  | Subscript_out_of_range

record DTestCase =
  Name :: string
  Func :: action

definition c_str :: "string \<Rightarrow> string" where
  \<comment> \<open>a \<^verbatim>\<open>std::string\<close> built from \<^verbatim>\<open>name.c_str()\<close> stops at the first NUL\<close>
  "c_str name = takeWhile (\<lambda>c. c \<noteq> CHR 0x00) name"

definition DTestCase_ctor :: "string \<Rightarrow> action \<Rightarrow> DTestCase" where
  "DTestCase_ctor name testFunction = \<lparr>Name = c_str name, Func = testFunction\<rparr>"

text \<open>
  What lies outside the objects: the text written to \<^verbatim>\<open>std::cerr\<close>, the files, and which
  paths \<^verbatim>\<open>std::ofstream::open\<close> can open. \<open>DoWork_calls\<close> is not in the source: it
  lists, oldest first, the test cases whose \<^verbatim>\<open>DoWork()\<close> has been called, so that
  "invoked once, in this order" can be stated.
\<close>

record world =
  cerr :: string
  files :: "string \<Rightarrow> string option"
  can_open :: "string \<Rightarrow> bool"
  DoWork_calls :: "DTestCase list"

section \<open>AutomatedTestInstance\<close>

record AutomatedTestInstance =
  tests :: "DTestCase list"
  testStatus :: "ETestStatus list"
  failed :: bool
  logstream :: stringstream
  currentRunningTest :: int

type_synonym 'a result = "error \<times> world + 'a \<times> AutomatedTestInstance \<times> world"

definition AutomatedTestInstance_ctor :: AutomatedTestInstance where
  "AutomatedTestInstance_ctor =
     \<lparr>tests = [], testStatus = [], failed = False,
      logstream = \<lparr>buffer = [], good = True\<rparr>, currentRunningTest = - 1\<rparr>"

definition ResetFlags :: "AutomatedTestInstance \<Rightarrow> AutomatedTestInstance" where
  "ResetFlags s = s\<lparr>failed := False, currentRunningTest := - 1\<rparr>"

definition TestTrue :: "bool \<Rightarrow> AutomatedTestInstance \<Rightarrow> bool \<times> AutomatedTestInstance" where
  "TestTrue expression s = (expression, if \<not> expression then s\<lparr>failed := True\<rparr> else s)"

definition TestFalse :: "bool \<Rightarrow> AutomatedTestInstance \<Rightarrow> bool \<times> AutomatedTestInstance" where
  "TestFalse expression s = (expression, if expression then s\<lparr>failed := True\<rparr> else s)"

definition GetTestNames :: "AutomatedTestInstance \<Rightarrow> string list" where
  "GetTestNames s = map Name (tests s)"

definition GetCurrentRunningTest :: "AutomatedTestInstance \<Rightarrow> int" where
  "GetCurrentRunningTest s = currentRunningTest s"

text \<open>
  \<^verbatim>\<open>v[i]\<close> with a \<^verbatim>\<open>signed int\<close> index: the index is converted to \<^verbatim>\<open>size_t\<close>, so a
  negative one is far beyond any size. Out of range there is no defined value.
\<close>

definition at_index :: "'a list \<Rightarrow> int \<Rightarrow> 'a option" where
  "at_index xs i = (if 0 \<le> i \<and> nat i < length xs then Some (xs ! nat i) else None)"

definition TestEqual_text :: "string \<Rightarrow> string \<Rightarrow> string \<Rightarrow> string" where
  "TestEqual_text name expected val =
     ''In:'' @ name @ TEXT_RED @ [ENDLINE] @ ''Expected value to be '' @ expected @
     '' but it was '' @ val @ [ENDLINE, ENDLINE]"

text \<open>
  The body of the \<^verbatim>\<open>if\<close> of \<^verbatim>\<open>TestEqual\<close>, the same text in its three overloads:
  write to \<^verbatim>\<open>std::cerr\<close>, set \<^verbatim>\<open>_failed\<close>, \<^verbatim>\<open>assert(false)\<close>, return false.
\<close>

definition TestEqual_mismatch ::
  "build \<Rightarrow> string \<Rightarrow> string \<Rightarrow> AutomatedTestInstance \<Rightarrow> world \<Rightarrow> bool result" where
  "TestEqual_mismatch b expected val s w =
     (case at_index (GetTestNames s) (GetCurrentRunningTest s) of
        None \<Rightarrow> Inl (UndefinedBehaviour, w)
      | Some name \<Rightarrow>
          (let w' = w\<lparr>cerr := cerr w @ TestEqual_text name expected val\<rparr>;
               s' = s\<lparr>failed := True\<rparr>
           in if assert_aborts b False then Inl (AssertionFailed, w')
              else Inr (False, s', w')))"

definition TestEqual_int ::
  "build \<Rightarrow> 32 word \<Rightarrow> 32 word \<Rightarrow> AutomatedTestInstance \<Rightarrow> world \<Rightarrow> bool result" where
  "TestEqual_int b val expected s w =
     (if \<not> (val = expected)
      then TestEqual_mismatch b (dec_int (sint expected)) (dec_int (sint val)) s w
      else Inr (True, s, w))"

definition TestEqual_unsigned ::
  "build \<Rightarrow> 32 word \<Rightarrow> 32 word \<Rightarrow> AutomatedTestInstance \<Rightarrow> world \<Rightarrow> bool result" where
  "TestEqual_unsigned b val expected s w =
     (if \<not> (val = expected)
      then TestEqual_mismatch b (dec_nat (unat expected)) (dec_nat (unat val)) s w
      else Inr (True, s, w))"

definition TestEqual_float ::
  "build \<Rightarrow> float32 \<Rightarrow> float32 \<Rightarrow> AutomatedTestInstance \<Rightarrow> world \<Rightarrow> bool result" where
  "TestEqual_float b val expected s w =
     (if \<not> floatsAlmostSame val expected FLT_EPSILON
      then TestEqual_mismatch b (float_text b expected) (float_text b val) s w
      else Inr (True, s, w))"

text \<open>
  \<^verbatim>\<open>std::find_if\<close> followed by \<^verbatim>\<open>std::distance\<close> from \<^verbatim>\<open>begin()\<close>: the position of the first
  element that satisfies the predicate, the size when there is none (\<^verbatim>\<open>end()\<close>).
\<close>

fun find_if :: "('a \<Rightarrow> bool) \<Rightarrow> 'a list \<Rightarrow> nat" where
  "find_if P [] = 0"
| "find_if P (x # xs) = (if P x then 0 else Suc (find_if P xs))"

definition INT_MAX :: nat where
  "INT_MAX = 2 ^ 31 - 1"

text \<open>
  \<^verbatim>\<open>GetResult\<close>: the loop returns at the first case of that name; when there is none,
  control runs off the end of a function that returns a value, and the caller gets no
  defined value (\<open>None\<close>). The counter is an \<^verbatim>\<open>int\<close>: incrementing it at \<^verbatim>\<open>INT_MAX\<close>
  has no defined result either.
\<close>

function GetResult_loop :: "nat \<Rightarrow> AutomatedTestInstance \<Rightarrow> string \<Rightarrow> ETestStatus option" where
  "GetResult_loop i s name =
     (if i < length (tests s) then
        (if Name (tests s ! i) = name then at_index (testStatus s) (int i)
         else if i = INT_MAX then None
         else GetResult_loop (i + 1) s name)
      else None)"
  by pat_completeness auto

termination
  by (relation "measure (\<lambda>(i, s, name). length (tests s) - i)") auto

declare GetResult_loop.simps [simp del]

definition GetResult :: "AutomatedTestInstance \<Rightarrow> string \<Rightarrow> ETestStatus option" where
  "GetResult s name = GetResult_loop 0 s name"

definition GetResults :: "AutomatedTestInstance \<Rightarrow> ETestStatus list" where
  "GetResults s = testStatus s"

definition GetLog :: "AutomatedTestInstance \<Rightarrow> string" where
  "GetLog s = str (logstream s)"

definition ResetLog :: "AutomatedTestInstance \<Rightarrow> AutomatedTestInstance" where
  "ResetLog s = s\<lparr>logstream := clear (logstream s)\<rparr>"

definition TestCase ::
  "build \<Rightarrow> string \<Rightarrow> action \<Rightarrow> AutomatedTestInstance \<Rightarrow> error + AutomatedTestInstance" where
  "TestCase b name testFunc s =
     (if assert_aborts b (find_if (\<lambda>t. Name t = name) (tests s) = length (tests s))
        then Inl AssertionFailed
      else if assert_aborts b (length (tests s) < INT_MAX) then Inl AssertionFailed
      else Inr (s\<lparr>tests := tests s @ [DTestCase_ctor name testFunc],
                  testStatus := testStatus s @ [NOT_TESTED]\<rparr>))"

text \<open>
  Running an action: each call is the member function above, applied to the suite the
  lambda captured. A call that has no defined result ends the run with
  \<open>UndefinedBehaviour\<close>.
\<close>

primrec exec :: "build \<Rightarrow> action \<Rightarrow> AutomatedTestInstance \<Rightarrow> world \<Rightarrow> unit result" where
  "exec b Return s w = Inr ((), s, w)"
| "exec b (Call_ResetFlags k) s w = exec b k (ResetFlags s) w"
| "exec b (Call_TestTrue expression k) s w =
     (case TestTrue expression s of (r, s') \<Rightarrow> exec b (k r) s' w)"
| "exec b (Call_TestFalse expression k) s w =
     (case TestFalse expression s of (r, s') \<Rightarrow> exec b (k r) s' w)"
| "exec b (Call_TestEqual_int val expected k) s w =
     (case TestEqual_int b val expected s w of
        Inl e \<Rightarrow> Inl e
      | Inr (r, s', w') \<Rightarrow> exec b (k r) s' w')"
| "exec b (Call_TestEqual_unsigned val expected k) s w =
     (case TestEqual_unsigned b val expected s w of
        Inl e \<Rightarrow> Inl e
      | Inr (r, s', w') \<Rightarrow> exec b (k r) s' w')"
| "exec b (Call_TestEqual_float val expected k) s w =
     (case TestEqual_float b val expected s w of
        Inl e \<Rightarrow> Inl e
      | Inr (r, s', w') \<Rightarrow> exec b (k r) s' w')"
| "exec b (Call_GetTestNames k) s w = exec b (k (GetTestNames s)) s w"
| "exec b (Call_GetResult name k) s w =
     (case GetResult s name of
        None \<Rightarrow> Inl (UndefinedBehaviour, w)
      | Some r \<Rightarrow> exec b (k r) s w)"
| "exec b (Call_GetResults k) s w = exec b (k (GetResults s)) s w"
| "exec b (Call_GetCurrentRunningTest k) s w = exec b (k (GetCurrentRunningTest s)) s w"
| "exec b (Call_GetLog k) s w = exec b (k (GetLog s)) s w"
| "exec b (Call_ResetLog k) s w = exec b k (ResetLog s) w"
| "exec b (Call_OutLog f k) s w = exec b k (s\<lparr>logstream := f (logstream s)\<rparr>) w"
| "exec b (Write_cerr txt k) s w = exec b k s (w\<lparr>cerr := cerr w @ txt\<rparr>)"
| "exec b Subscript_out_of_range s w = Inl (UndefinedBehaviour, w)"

text \<open>\<^verbatim>\<open>DoWork()\<close> calls \<^verbatim>\<open>Func()\<close>; the call is recorded in \<open>DoWork_calls\<close>.\<close>

definition DoWork :: "build \<Rightarrow> DTestCase \<Rightarrow> AutomatedTestInstance \<Rightarrow> world \<Rightarrow> unit result" where
  "DoWork b t s w = exec b (Func t) s (w\<lparr>DoWork_calls := DoWork_calls w @ [t]\<rparr>)"

text \<open>
  \<^verbatim>\<open>static_cast<signed int>\<close> of a \<^verbatim>\<open>std::distance\<close>: the value modulo \<open>2^32\<close>, read as two's
  complement.
\<close>

definition static_cast_int :: "nat \<Rightarrow> int" where
  "static_cast_int n = (int n + 2 ^ 31) mod 2 ^ 32 - 2 ^ 31"

text \<open>\<^verbatim>\<open>v[i] = x\<close> with a \<^verbatim>\<open>signed int\<close> index; out of range it has no defined effect.\<close>

definition assign_at :: "'a list \<Rightarrow> int \<Rightarrow> 'a \<Rightarrow> 'a list option" where
  "assign_at xs i v = (if 0 \<le> i \<and> nat i < length xs then Some (xs[nat i := v]) else None)"

definition RunTest :: "build \<Rightarrow> string \<Rightarrow> AutomatedTestInstance \<Rightarrow> world \<Rightarrow> bool result" where
  "RunTest b name s w =
     (let s1 = ResetFlags s;
          found = find_if (\<lambda>t. Name t = name) (tests s1)
      in if found = length (tests s1)
         then Inl (if assert_aborts b False then AssertionFailed else UndefinedBehaviour, w)
         else
           (let s2 = s1\<lparr>currentRunningTest := static_cast_int found\<rparr> in
            case DoWork b (tests s2 ! found) s2 w of
              Inl e \<Rightarrow> Inl e
            | Inr (u, s3, w3) \<Rightarrow>
                (case assign_at (testStatus s3) (currentRunningTest s3)
                        (if failed s3 then FAILED else PASSED) of
                   None \<Rightarrow> Inl (UndefinedBehaviour, w3)
                 | Some st \<Rightarrow> Inr (\<not> failed s3, s3\<lparr>testStatus := st\<rparr>, w3))))"

text \<open>
  The loop of \<^verbatim>\<open>RunAll\<close>, from counter \<open>i\<close> with \<open>passed\<close> counted so far (an
  \<^verbatim>\<open>unsigned int\<close>). Size and element are read from the suite anew in every round, as the
  source does; the \<^verbatim>\<open>int\<close> counter cannot be incremented at \<^verbatim>\<open>INT_MAX\<close>.
\<close>

function RunAll_loop ::
  "build \<Rightarrow> nat \<Rightarrow> 32 word \<Rightarrow> AutomatedTestInstance \<Rightarrow> world \<Rightarrow> bool result" where
  "RunAll_loop b i passed s w =
     (if i < length (tests s) then
        (case RunTest b (Name (tests (ResetFlags s) ! i)) (ResetFlags s) w of
           Inl e \<Rightarrow> Inl e
         | Inr (r, s', w') \<Rightarrow>
             if i = INT_MAX then Inl (UndefinedBehaviour, w')
             else RunAll_loop b (i + 1) (passed + (if r then 1 else 0)) s' w')
      else Inr (unat passed = length (tests s), s, w))"
  by pat_completeness auto

definition RunAll :: "build \<Rightarrow> AutomatedTestInstance \<Rightarrow> world \<Rightarrow> bool result" where
  "RunAll b s w = RunAll_loop b 0 0 s w"

text \<open>
  The macros that expand, inside an action, to a call and a line on \<^verbatim>\<open>std::cerr\<close>.
  \<open>line\<close> is \<^verbatim>\<open>__LINE__\<close>, \<open>txt\<close> is \<^verbatim>\<open>#expression\<close>, \<open>k\<close> is the rest of the body.
  (\<^verbatim>\<open>TEST_EQUAL\<close> and \<^verbatim>\<open>TEST_NEQUAL\<close> name \<^verbatim>\<open>TestEqualAtLine\<close> and
  \<^verbatim>\<open>Fox::SMALLFLOAT\<close>, which the header does not declare; they are not embedded.)
\<close>

definition macro_line :: "string \<Rightarrow> int \<Rightarrow> string \<Rightarrow> string \<Rightarrow> string" where
  "macro_line name line macro txt =
     ''In:'' @ name @ ''[line '' @ dec_int line @ '']'' @ '' '' @ macro @ ''('' @ txt @ '')'' @
     '' was expected to be true but it was false'' @ [ENDLINE]"

definition macro_report :: "int \<Rightarrow> string \<Rightarrow> string \<Rightarrow> action \<Rightarrow> action" where
  "macro_report line macro txt k =
     Call_GetTestNames (\<lambda>names. Call_GetCurrentRunningTest (\<lambda>i.
       case at_index names i of
         None \<Rightarrow> Subscript_out_of_range
       | Some name \<Rightarrow> Write_cerr (macro_line name line macro txt) k))"

definition TEST_TRUE_OR_QUIT :: "bool \<Rightarrow> int \<Rightarrow> string \<Rightarrow> action \<Rightarrow> action" where
  "TEST_TRUE_OR_QUIT expression line txt k =
     Call_TestTrue expression
       (\<lambda>r. if \<not> r then macro_report line ''TEST_TRUE_OR_QUIT'' txt Return else k)"

definition TEST_TRUE :: "bool \<Rightarrow> int \<Rightarrow> string \<Rightarrow> action \<Rightarrow> action" where
  "TEST_TRUE expression line txt k =
     Call_TestTrue expression
       (\<lambda>r. if \<not> r then macro_report line ''TEST_TRUE'' txt k else k)"

definition TEST_FALSE :: "bool \<Rightarrow> int \<Rightarrow> string \<Rightarrow> action \<Rightarrow> action" where
  "TEST_FALSE expression line txt k =
     Call_TestFalse expression
       (\<lambda>r. if r then macro_report line ''TEST_FALSE'' txt k else k)"

section \<open>AutomationTester\<close>

text \<open>
  \<^verbatim>\<open>AddTest<T>\<close> stores a lambda that returns \<^verbatim>\<open>new T\<close>, and \<^verbatim>\<open>RunAllTests\<close> calls the
  virtual \<^verbatim>\<open>Define()\<close> of the new object. A class \<open>T\<close> is what its \<^verbatim>\<open>Define()\<close> does:
  the calls \<^verbatim>\<open>TestCase(name, func)\<close> in their order.
\<close>

type_synonym test_class = "(string \<times> action) list"

fun Define :: "build \<Rightarrow> test_class \<Rightarrow> AutomatedTestInstance \<Rightarrow> error + AutomatedTestInstance" where
  "Define b [] s = Inr s"
| "Define b ((name, testFunc) # rest) s =
     (case TestCase b name testFunc s of
        Inl e \<Rightarrow> Inl e
      | Inr s' \<Rightarrow> Define b rest s')"

text \<open>
  \<^verbatim>\<open>_tests\<close> of the registry is a \<^verbatim>\<open>std::map\<close> keyed by \<^verbatim>\<open>std::string\<close>: its entries in
  ascending key order, one per key (field \<open>tester_tests\<close>; the suite has a \<^verbatim>\<open>_tests\<close> too).
  \<open>map_assign\<close> is \<^verbatim>\<open>m[k] = v\<close>. The \<^verbatim>\<open>std::ofstream\<close> is the path it has open, if any.
\<close>

record AutomationTester =
  tester_tests :: "(string \<times> test_class) list"
  outstream :: "string option"

fun map_assign :: "string \<Rightarrow> 'v \<Rightarrow> (string \<times> 'v) list \<Rightarrow> (string \<times> 'v) list" where
  "map_assign k v [] = [(k, v)]"
| "map_assign k v ((k', v') # m) =
     (if k < k' then (k, v) # (k', v') # m
      else if k = k' then (k', v) # m
      else (k', v') # map_assign k v m)"

definition AddTest :: "string \<Rightarrow> test_class \<Rightarrow> AutomationTester \<Rightarrow> AutomationTester" where
  "AddTest testName T a = a\<lparr>tester_tests := map_assign testName T (tester_tests a)\<rparr>"

definition out :: "string option \<Rightarrow> string \<Rightarrow> world \<Rightarrow> world" where
  \<comment> \<open>\<^verbatim>\<open>GetOutstream() << txt\<close>: the file when one is open, \<^verbatim>\<open>std::cerr\<close> otherwise\<close>
  "out os txt w =
     (case os of
        None \<Rightarrow> w\<lparr>cerr := cerr w @ txt\<rparr>
      | Some p \<Rightarrow> w\<lparr>files := (files w)(p \<mapsto> (case files w p of None \<Rightarrow> txt | Some c \<Rightarrow> c @ txt))\<rparr>)"



definition resultOffset :: nat where
  "resultOffset = 60"

definition OutResult :: "string option \<Rightarrow> bool \<Rightarrow> world \<Rightarrow> world" where
  \<comment> \<open>\<^verbatim>\<open>setfill('-')\<close> and \<^verbatim>\<open>setw(_resultOffset)\<close> pad the \<^verbatim>\<open>"["\<close> on the left\<close>
  "OutResult os res w =
     out os (replicate (resultOffset - length ''['') CHR ''-'' @ ''['' @
             (if res then TEXT_GREEN @ ''PASSED'' else TEXT_RED @ ''FAILED'') @
             TEXT_WHITE @ '']'') w"

text \<open>
  The inner loop of \<^verbatim>\<open>RunAllTests\<close>, over the names \<^verbatim>\<open>GetTestNames()\<close> returned before
  the first case ran; \<open>n\<close> is \<^verbatim>\<open>subTestNumPassed\<close>.
\<close>

fun RunAllTests_cases ::
  "build \<Rightarrow> string option \<Rightarrow> string list \<Rightarrow> 32 word \<Rightarrow> AutomatedTestInstance \<Rightarrow> world \<Rightarrow>
   (32 word) result" where
  "RunAllTests_cases b os [] n s w = Inr (n, s, w)"
| "RunAllTests_cases b os (name # rest) n s w =
     (let w1 = out os (TEXT_WHITE @ ''Running:'' @ name @ [ENDLINE]) w in
      case RunTest b name s w1 of
        Inl e \<Rightarrow> Inl e
      | Inr (res, s', w2) \<Rightarrow>
          (let w3 = out os [ENDLINE] (OutResult os res w2)
           in RunAllTests_cases b os rest (n + (if res then 1 else 0)) s' w3))"



section \<open>Concrete builds, worlds and suites\<close>

text \<open>
  What \<^verbatim>\<open>operator<<\<close> prints for a \<^verbatim>\<open>float\<close> with the default flags, in libstdc++ on glibc:
  the value as \<^verbatim>\<open>printf("%g")\<close> prints it. That is the value rounded to 6 significant
  digits (to nearest, ties to even), with decimal exponent \<open>X\<close>; in fixed notation when
  \<open>-4 \<le> X < 6\<close> and as \<^verbatim>\<open>d.ddddde+XX\<close> otherwise, with the zeros at the end of the fraction
  removed. An infinity is \<^verbatim>\<open>inf\<close> and a NaN is \<^verbatim>\<open>nan\<close>, after the sign. \<open>n\<close> is the magnitude
  in units of \<open>2^-149\<close>.
\<close>

definition round_half_even :: "nat \<Rightarrow> nat \<Rightarrow> nat" where
  "round_half_even num den =
     (let q = num div den; r = num mod den
      in if 2 * r > den \<or> (2 * r = den \<and> odd q) then q + 1 else q)"

text \<open>\<open>10^X \<le> n * 2^-149\<close>, and the largest such \<open>X\<close>, searched downwards from 38.\<close>

definition at_least_power_of_ten :: "nat \<Rightarrow> int \<Rightarrow> bool" where
  "at_least_power_of_ten n X =
     (if 0 \<le> X then 10 ^ nat X * 2 ^ 149 \<le> n else 2 ^ 149 \<le> n * 10 ^ nat (- X))"

function decimal_exponent_from :: "nat \<Rightarrow> int \<Rightarrow> int" where
  "decimal_exponent_from n X =
     (if X \<le> - 46 \<or> at_least_power_of_ten n X then X else decimal_exponent_from n (X - 1))"
  by pat_completeness auto

termination
  by (relation "measure (\<lambda>(n, X). nat (X + 46))") auto

declare decimal_exponent_from.simps [simp del]

definition decimal_exponent :: "nat \<Rightarrow> int" where
  "decimal_exponent n = decimal_exponent_from n 38"

definition six_digits :: "nat \<Rightarrow> int \<Rightarrow> nat" where
  "six_digits n X =
     (if X \<le> 5 then round_half_even (n * 10 ^ nat (5 - X)) (2 ^ 149)
      else round_half_even n (2 ^ 149 * 10 ^ nat (X - 5)))"

definition strip_zeros :: "string \<Rightarrow> string" where
  "strip_zeros ds = rev (dropWhile (\<lambda>c. c = CHR ''0'') (rev ds))"

definition point_and :: "string \<Rightarrow> string" where
  "point_and fraction = (if fraction = [] then [] else CHR ''.'' # fraction)"

definition printf_g_digits :: "int \<Rightarrow> string \<Rightarrow> string" where
  "printf_g_digits X ds =
     (if - 4 \<le> X \<and> X < 6 then
        (if 0 \<le> X
         then take (nat X + 1) ds @ point_and (strip_zeros (drop (nat X + 1) ds))
         else ''0.'' @ replicate (nat (- X - 1)) CHR ''0'' @ strip_zeros ds)
      else
        take 1 ds @ point_and (strip_zeros (drop 1 ds)) @ ''e'' @
        (if X < 0 then ''-'' else ''+'') @ (if \<bar>X\<bar> < 10 then ''0'' else []) @
        dec_nat (nat \<bar>X\<bar>))"

definition printf_g :: "nat \<Rightarrow> string" where
  "printf_g n =
     (if n = 0 then ''0''
      else
        (let X = decimal_exponent n; m = six_digits n X
         in if m = 10 ^ 6 then printf_g_digits (X + 1) (dec_nat (10 ^ 5))
            else printf_g_digits X (dec_nat m)))"

definition float_text_glibc :: "float32 \<Rightarrow> string" where
  "float_text_glibc x =
     (if float_sign x then ''-'' else []) @
     (case float_value_of x of
        NaN \<Rightarrow> ''nan''
      | Infinite neg \<Rightarrow> ''inf''
      | Finite v \<Rightarrow> printf_g (nat \<bar>v\<bar>))"

text \<open>
  Inputs the properties below are evaluated at. The two builds differ in \<^verbatim>\<open>NDEBUG\<close> only,
  and print floats as libstdc++ on glibc does; \<open>world0\<close> has nothing written and no path
  that can be opened.
\<close>

definition build_assertions :: build where
  "build_assertions = \<lparr>NDEBUG = False, float_text = float_text_glibc\<rparr>"

definition build_NDEBUG :: build where
  "build_NDEBUG = \<lparr>NDEBUG = True, float_text = float_text_glibc\<rparr>"

definition world0 :: world where
  "world0 = \<lparr>cerr = [], files = (\<lambda>p. None), can_open = (\<lambda>p. False), DoWork_calls = []\<rparr>"

definition suite_one :: AutomatedTestInstance where
  \<comment> \<open>one case, \<^verbatim>\<open>TestCase("a", [](){})\<close>\<close>
  "suite_one =
     \<lparr>tests = [\<lparr>Name = ''a'', Func = Return\<rparr>], testStatus = [NOT_TESTED], failed = False,
      logstream = \<lparr>buffer = [], good = True\<rparr>, currentRunningTest = - 1\<rparr>"

definition suite_two :: AutomatedTestInstance where
  \<comment> \<open>two cases, the first passed and the second failed\<close>
  "suite_two =
     \<lparr>tests = [\<lparr>Name = ''a'', Func = Return\<rparr>, \<lparr>Name = ''b'', Func = Return\<rparr>],
      testStatus = [PASSED, FAILED], failed = False,
      logstream = \<lparr>buffer = [], good = True\<rparr>, currentRunningTest = - 1\<rparr>"

definition tester_two :: AutomationTester where
  \<comment> \<open>two registered classes, A with one case and B with none\<close>
  "tester_two = \<lparr>tester_tests = [(''A'', [(''a'', Return)]), (''B'', [])], outstream = None\<rparr>"

definition suite_ab :: AutomatedTestInstance where
  \<comment> \<open>case "a" calls \<^verbatim>\<open>TestTrue(false)\<close>, case "b" does nothing\<close>
  "suite_ab =
     \<lparr>tests = [\<lparr>Name = ''a'', Func = Call_TestTrue False (\<lambda>r. Return)\<rparr>,
               \<lparr>Name = ''b'', Func = Return\<rparr>],
      testStatus = [NOT_TESTED, NOT_TESTED], failed = False,
      logstream = \<lparr>buffer = [], good = True\<rparr>, currentRunningTest = - 1\<rparr>"

definition suite_eq :: AutomatedTestInstance where
  \<comment> \<open>case "a" calls \<^verbatim>\<open>TestEqual(5, 6)\<close>, case "b" does nothing\<close>
  "suite_eq =
     \<lparr>tests = [\<lparr>Name = ''a'', Func = Call_TestEqual_int 5 6 (\<lambda>r. Return)\<rparr>,
               \<lparr>Name = ''b'', Func = Return\<rparr>],
      testStatus = [NOT_TESTED, NOT_TESTED], failed = False,
      logstream = \<lparr>buffer = [], good = True\<rparr>, currentRunningTest = - 1\<rparr>"

definition suite_reset :: AutomatedTestInstance where
  \<comment> \<open>the one case "r" calls \<^verbatim>\<open>ResetFlags()\<close>\<close>
  "suite_reset =
     \<lparr>tests = [\<lparr>Name = ''r'', Func = Call_ResetFlags Return\<rparr>], testStatus = [NOT_TESTED],
      failed = False, logstream = \<lparr>buffer = [], good = True\<rparr>, currentRunningTest = - 1\<rparr>"


definition suite_macros :: AutomatedTestInstance where
  \<comment> \<open>case "m" is \<^verbatim>\<open>TEST_TRUE(x)\<close> on line 7 and \<^verbatim>\<open>TEST_FALSE(y)\<close> on line 8 with \<^verbatim>\<open>x\<close> and
      \<^verbatim>\<open>y\<close> false, case "n" does nothing\<close>
  "suite_macros =
     \<lparr>tests = [\<lparr>Name = ''m'', Func = TEST_TRUE False 7 ''x'' (TEST_FALSE False 8 ''y'' Return)\<rparr>,
               \<lparr>Name = ''n'', Func = Return\<rparr>],
      testStatus = [NOT_TESTED, NOT_TESTED], failed = False,
      logstream = \<lparr>buffer = [], good = True\<rparr>, currentRunningTest = - 1\<rparr>"




section \<open>Notions the properties are stated with\<close>

text \<open>What no action can change (it has no member function for it).\<close>

definition framed :: "AutomatedTestInstance \<Rightarrow> world \<Rightarrow> AutomatedTestInstance \<Rightarrow> world \<Rightarrow> bool" where
  "framed s w s' w' \<longleftrightarrow>
     tests s' = tests s \<and> testStatus s' = testStatus s \<and>
     (currentRunningTest s' = currentRunningTest s \<or> currentRunningTest s' = - 1) \<and>
     DoWork_calls w' = DoWork_calls w \<and> files w' = files w \<and> can_open w' = can_open w"

text \<open>
  What can be read off an action before it runs. Inside \<^verbatim>\<open>RunTest\<close> the names are those of
  the suite and the index is the position of the case, so a call of \<^verbatim>\<open>GetTestNames\<close> or
  \<^verbatim>\<open>GetCurrentRunningTest\<close> is followed with these; writing to \<^verbatim>\<open>std::cerr\<close> or to the log
  changes nothing an assertion depends on. \<open>verdict ns i a\<close> is \<open>Some True\<close> when every assertion
  the action makes holds and \<open>Some False\<close> when one fails. It is \<open>None\<close> for an action that
  calls \<^verbatim>\<open>ResetFlags\<close> itself, that reads the log or the recorded outcomes (what it does
  next is then not known beforehand), or that indexes out of range. \<open>TestEqual_fails ns i a\<close>
  says that one of its \<^verbatim>\<open>TestEqual\<close> calls finds a mismatch.
\<close>

primrec verdict :: "string list \<Rightarrow> int \<Rightarrow> action \<Rightarrow> bool option" where
  "verdict ns i Return = Some True"
| "verdict ns i (Call_ResetFlags k) = None"
| "verdict ns i (Call_TestTrue expression k) =
     map_option (\<lambda>r. expression \<and> r) (verdict ns i (k expression))"
| "verdict ns i (Call_TestFalse expression k) =
     map_option (\<lambda>r. \<not> expression \<and> r) (verdict ns i (k expression))"
| "verdict ns i (Call_TestEqual_int val expected k) =
     map_option (\<lambda>r. val = expected \<and> r) (verdict ns i (k (val = expected)))"
| "verdict ns i (Call_TestEqual_unsigned val expected k) =
     map_option (\<lambda>r. val = expected \<and> r) (verdict ns i (k (val = expected)))"
| "verdict ns i (Call_TestEqual_float val expected k) =
     map_option (\<lambda>r. floatsAlmostSame val expected FLT_EPSILON \<and> r)
       (verdict ns i (k (floatsAlmostSame val expected FLT_EPSILON)))"
| "verdict ns i (Call_GetTestNames k) = verdict ns i (k ns)"
| "verdict ns i (Call_GetResult name k) = None"
| "verdict ns i (Call_GetResults k) = None"
| "verdict ns i (Call_GetCurrentRunningTest k) = verdict ns i (k i)"
| "verdict ns i (Call_GetLog k) = None"
| "verdict ns i (Call_ResetLog k) = verdict ns i k"
| "verdict ns i (Call_OutLog f k) = verdict ns i k"
| "verdict ns i (Write_cerr txt k) = verdict ns i k"
| "verdict ns i Subscript_out_of_range = None"

primrec TestEqual_fails :: "string list \<Rightarrow> int \<Rightarrow> action \<Rightarrow> bool" where
  "TestEqual_fails ns i Return = False"
| "TestEqual_fails ns i (Call_ResetFlags k) = False"
| "TestEqual_fails ns i (Call_TestTrue expression k) = TestEqual_fails ns i (k expression)"
| "TestEqual_fails ns i (Call_TestFalse expression k) = TestEqual_fails ns i (k expression)"
| "TestEqual_fails ns i (Call_TestEqual_int val expected k) =
     (val \<noteq> expected \<or> TestEqual_fails ns i (k (val = expected)))"
| "TestEqual_fails ns i (Call_TestEqual_unsigned val expected k) =
     (val \<noteq> expected \<or> TestEqual_fails ns i (k (val = expected)))"
| "TestEqual_fails ns i (Call_TestEqual_float val expected k) =
     (\<not> floatsAlmostSame val expected FLT_EPSILON \<or>
      TestEqual_fails ns i (k (floatsAlmostSame val expected FLT_EPSILON)))"
| "TestEqual_fails ns i (Call_GetTestNames k) = TestEqual_fails ns i (k ns)"
| "TestEqual_fails ns i (Call_GetResult name k) = False"
| "TestEqual_fails ns i (Call_GetResults k) = False"
| "TestEqual_fails ns i (Call_GetCurrentRunningTest k) = TestEqual_fails ns i (k i)"
| "TestEqual_fails ns i (Call_GetLog k) = False"
| "TestEqual_fails ns i (Call_ResetLog k) = TestEqual_fails ns i k"
| "TestEqual_fails ns i (Call_OutLog f k) = TestEqual_fails ns i k"
| "TestEqual_fails ns i (Write_cerr txt k) = TestEqual_fails ns i k"
| "TestEqual_fails ns i Subscript_out_of_range = False"

text \<open>
  The outcome \<open>verdict\<close> foretells for the case at position \<open>i\<close> of a suite, and whether a
  \<^verbatim>\<open>TestEqual\<close> of that case finds a mismatch.
\<close>

definition case_verdict :: "AutomatedTestInstance \<Rightarrow> nat \<Rightarrow> bool option" where
  "case_verdict s i = verdict (GetTestNames s) (int i) (Func (tests s ! i))"

definition case_TestEqual_fails :: "AutomatedTestInstance \<Rightarrow> nat \<Rightarrow> bool" where
  "case_TestEqual_fails s i = TestEqual_fails (GetTestNames s) (int i) (Func (tests s ! i))"

text \<open>The effect of one assertion on the suite: \<^verbatim>\<open>_failed\<close> is set unless it held.\<close>

definition note_failure :: "bool \<Rightarrow> AutomatedTestInstance \<Rightarrow> AutomatedTestInstance" where
  "note_failure ok s = (if ok then s else s\<lparr>failed := True\<rparr>)"

text \<open>
  What a run returns and does to the suite does not depend on the world it starts in: the
  world is only written to. \<open>erase\<close> drops the world from a result.
\<close>

definition erase :: "'a result \<Rightarrow> error + 'a \<times> AutomatedTestInstance" where
  "erase x = (case x of Inl (e, w) \<Rightarrow> Inl e | Inr (r, s, w) \<Rightarrow> Inr (r, s))"






text \<open>
  The case \<^verbatim>\<open>RunTest\<close> finds when it is given the name of case \<open>t\<close>: the first case of the
  suite with that name.
\<close>

definition first_named :: "AutomatedTestInstance \<Rightarrow> DTestCase \<Rightarrow> DTestCase" where
  "first_named s t = tests s ! find_if (\<lambda>u. Name u = Name t) (tests s)"

section \<open>Running an action leaves the cases as they are\<close>

text \<open>The loop ends because running a case leaves \<^verbatim>\<open>_tests\<close> as it is.\<close>

lemma action_induct [case_names Return ResetFlags TestTrue TestFalse TestEqual_int
    TestEqual_unsigned TestEqual_float GetTestNames GetResult GetResults
    GetCurrentRunningTest GetLog ResetLog OutLog Write_cerr Subscript]:
  assumes "P Return"
    and "\<And>k. P k \<Longrightarrow> P (Call_ResetFlags k)"
    and "\<And>e k. (\<And>r. P (k r)) \<Longrightarrow> P (Call_TestTrue e k)"
    and "\<And>e k. (\<And>r. P (k r)) \<Longrightarrow> P (Call_TestFalse e k)"
    and "\<And>v e k. (\<And>r. P (k r)) \<Longrightarrow> P (Call_TestEqual_int v e k)"
    and "\<And>v e k. (\<And>r. P (k r)) \<Longrightarrow> P (Call_TestEqual_unsigned v e k)"
    and "\<And>v e k. (\<And>r. P (k r)) \<Longrightarrow> P (Call_TestEqual_float v e k)"
    and "\<And>k. (\<And>r. P (k r)) \<Longrightarrow> P (Call_GetTestNames k)"
    and "\<And>n k. (\<And>r. P (k r)) \<Longrightarrow> P (Call_GetResult n k)"
    and "\<And>k. (\<And>r. P (k r)) \<Longrightarrow> P (Call_GetResults k)"
    and "\<And>k. (\<And>r. P (k r)) \<Longrightarrow> P (Call_GetCurrentRunningTest k)"
    and "\<And>k. (\<And>r. P (k r)) \<Longrightarrow> P (Call_GetLog k)"
    and "\<And>k. P k \<Longrightarrow> P (Call_ResetLog k)"
    and "\<And>f k. P k \<Longrightarrow> P (Call_OutLog f k)"
    and "\<And>t k. P k \<Longrightarrow> P (Write_cerr t k)"
    and "P Subscript_out_of_range"
  shows "P a"
  by (induction a) (simp_all add: assms rangeI)

lemma TestEqual_mismatch_Inr:
  "TestEqual_mismatch b x y s w = Inr (r, s', w') \<Longrightarrow>
     \<not> r \<and> s' = s\<lparr>failed := True\<rparr> \<and> (\<exists>t. w' = w\<lparr>cerr := cerr w @ t\<rparr>)"
  by (auto simp: TestEqual_mismatch_def Let_def split: option.splits if_splits)

lemma TestEqual_Inr:
  assumes "TestEqual_int b v e s w = Inr (r, s', w') \<or>
           TestEqual_unsigned b v e s w = Inr (r, s', w') \<or>
           TestEqual_float b v e s w = Inr (r, s', w')"
  shows "(s' = s \<or> s' = s\<lparr>failed := True\<rparr>) \<and> (\<exists>t. w' = w\<lparr>cerr := cerr w @ t\<rparr>)"
proof -
  have triv: "\<exists>t. w = w\<lparr>cerr := cerr w @ t\<rparr>"
    by (rule exI [of _ "[]"]) simp
  from assms show ?thesis
    unfolding TestEqual_int_def TestEqual_unsigned_def TestEqual_float_def
    using triv by (auto split: if_splits dest!: TestEqual_mismatch_Inr)
qed

lemma framed_refl: "framed s w s w"
  by (simp add: framed_def)

lemma framed_trans: "framed s w s1 w1 \<Longrightarrow> framed s1 w1 s2 w2 \<Longrightarrow> framed s w s2 w2"
  by (auto simp: framed_def)

lemma framed_TestEqual:
  assumes "TestEqual_int b v e s w = Inr (r, s', w') \<or>
           TestEqual_unsigned b v e s w = Inr (r, s', w') \<or>
           TestEqual_float b v e s w = Inr (r, s', w')"
  shows "framed s w s' w'"
  using TestEqual_Inr [OF assms] by (auto simp: framed_def)

lemma exec_framed:
  "exec b a s w = Inr (u, s', w') \<Longrightarrow> framed s w s' w'"
proof (induction a arbitrary: s w rule: action_induct)
  case Return
  then show ?case by (simp add: framed_refl)
next
  case (ResetFlags k)
  from ResetFlags.IH [of "ResetFlags s" w] ResetFlags.prems
  show ?case by (auto simp: framed_def ResetFlags_def)
next
  case (TestTrue e k)
  from TestTrue.IH [of e "snd (TestTrue e s)" w] TestTrue.prems
  show ?case by (auto simp: framed_def TestTrue_def split: if_splits)
next
  case (TestFalse e k)
  from TestFalse.IH [of e "snd (TestFalse e s)" w] TestFalse.prems
  show ?case by (auto simp: framed_def TestFalse_def split: if_splits)
next
  case (TestEqual_int v e k)
  from TestEqual_int.prems obtain r s1 w1
    where 1: "TestEqual_int b v e s w = Inr (r, s1, w1)" and 2: "exec b (k r) s1 w1 = Inr (u, s', w')"
    by (auto split: sum.splits)
  from framed_TestEqual [of b v e s w r s1 w1] 1 TestEqual_int.IH [OF 2]
  show ?case by (blast intro: framed_trans)
next
  case (TestEqual_unsigned v e k)
  from TestEqual_unsigned.prems obtain r s1 w1
    where 1: "TestEqual_unsigned b v e s w = Inr (r, s1, w1)" and 2: "exec b (k r) s1 w1 = Inr (u, s', w')"
    by (auto split: sum.splits)
  from framed_TestEqual [of b v e s w r s1 w1] 1 TestEqual_unsigned.IH [OF 2]
  show ?case by (blast intro: framed_trans)
next
  case (TestEqual_float v e k)
  from TestEqual_float.prems obtain r s1 w1
    where 1: "TestEqual_float b v e s w = Inr (r, s1, w1)" and 2: "exec b (k r) s1 w1 = Inr (u, s', w')"
    by (auto split: sum.splits)
  from framed_TestEqual [of b v e s w r s1 w1] 1 TestEqual_float.IH [OF 2]
  show ?case by (blast intro: framed_trans)
next
  case (GetTestNames k)
  then show ?case by simp
next
  case (GetResult n k)
  then show ?case by (auto split: option.splits)
next
  case (GetResults k)
  then show ?case by simp
next
  case (GetCurrentRunningTest k)
  then show ?case by simp
next
  case (GetLog k)
  then show ?case by simp
next
  case (ResetLog k)
  from ResetLog.IH [of "ResetLog s" w] ResetLog.prems
  show ?case by (auto simp: framed_def ResetLog_def)
next
  case (OutLog f k)
  from OutLog.IH [of "s\<lparr>logstream := f (logstream s)\<rparr>" w] OutLog.prems
  show ?case by (auto simp: framed_def)
next
  case (Write_cerr t k)
  from Write_cerr.IH [of s "w\<lparr>cerr := cerr w @ t\<rparr>"] Write_cerr.prems
  show ?case by (auto simp: framed_def)
next
  case Subscript
  then show ?case by simp
qed

lemma RunTest_tests:
  assumes "RunTest b name s w = Inr (r, s', w')"
  shows "tests s' = tests s"
proof -
  let ?s1 = "ResetFlags s"
  let ?found = "find_if (\<lambda>t. Name t = name) (tests ?s1)"
  let ?s2 = "?s1\<lparr>currentRunningTest := static_cast_int ?found\<rparr>"
  from assms obtain u s3 w3 st
    where 1: "DoWork b (tests ?s2 ! ?found) ?s2 w = Inr (u, s3, w3)"
      and 2: "s' = s3\<lparr>testStatus := st\<rparr>"
    by (auto simp: RunTest_def Let_def split: if_splits sum.splits option.splits)
  from 1 have "framed ?s2 (w\<lparr>DoWork_calls := DoWork_calls w @ [tests ?s2 ! ?found]\<rparr>) s3 w3"
    unfolding DoWork_def by (rule exec_framed)
  with 2 show ?thesis by (simp add: framed_def ResetFlags_def)
qed

termination RunAll_loop
proof (relation "measure (\<lambda>(b, i, passed, s, w). length (tests s) - i)", goal_cases)
  case 1
  then show ?case by simp
next
  case (2 b i passed s w x2 x1 x2a x1a x2b)
  then have "tests x1a = tests (ResetFlags s)"
    using RunTest_tests by metis
  with 2 show ?case by (auto simp: ResetFlags_def)
qed

declare RunAll_loop.simps [simp del]

section \<open>The log\<close>

text \<open>
  C10. \<^verbatim>\<open>ResetLog\<close> calls \<^verbatim>\<open>clear()\<close> on the stringstream, which sets the stream state and
  keeps the characters: \<^verbatim>\<open>GetLog\<close> returns the same string before and after, and nothing
  but the stream state changes.
\<close>

theorem ResetLog_keeps_text:
  "GetLog (ResetLog s) = GetLog s \<and>
   ResetLog s = s\<lparr>logstream := (logstream s)\<lparr>good := True\<rparr>\<rparr>"
  by (simp add: GetLog_def ResetLog_def str_def clear_def)

section \<open>The index of the running case\<close>

lemma suite_one_TestCase:
  "TestCase build_assertions ''a'' Return AutomatedTestInstance_ctor = Inr suite_one"
  by (simp add: TestCase_def build_assertions_def assert_aborts_def AutomatedTestInstance_ctor_def
      suite_one_def DTestCase_ctor_def c_str_def INT_MAX_def)

lemma static_cast_int_small: "n < 2 ^ 31 \<Longrightarrow> static_cast_int n = int n"
  by (simp add: static_cast_int_def)

text \<open>
  C6. The comment on \<^verbatim>\<open>GetCurrentRunningTest\<close> says it returns -1 if no tests are running.
  \<^verbatim>\<open>RunTest\<close> sets \<^verbatim>\<open>_currentRunningTest\<close> before the action and does not reset it after:
  when \<^verbatim>\<open>RunTest("a")\<close> has returned on the suite with the one case "a", no action is
  running and \<^verbatim>\<open>GetCurrentRunningTest\<close> returns 0.
\<close>

theorem RunTest_leaves_index:
  "RunTest build_assertions ''a'' suite_one world0 =
     Inr (True, suite_one\<lparr>testStatus := [PASSED], currentRunningTest := 0\<rparr>,
          world0\<lparr>DoWork_calls := [\<lparr>Name = ''a'', Func = Return\<rparr>]\<rparr>) \<and>
   GetCurrentRunningTest (suite_one\<lparr>testStatus := [PASSED], currentRunningTest := 0\<rparr>) = 0"
  by (simp add: RunTest_def ResetFlags_def suite_one_def world0_def DoWork_def
      static_cast_int_def assign_at_def GetCurrentRunningTest_def Let_def)

section \<open>Looking a case up by name\<close>

lemma find_if_le: "find_if P xs \<le> length xs"
  by (induction xs) auto

lemma find_if_end_iff: "find_if P xs = length xs \<longleftrightarrow> (\<forall>x\<in>set xs. \<not> P x)"
proof (induction xs)
  case Nil
  then show ?case by simp
next
  case (Cons x xs)
  then show ?case using find_if_le [of P xs] by auto
qed

lemma find_if_drop:
  assumes "i < length xs" "\<not> P (xs ! i)"
  shows "find_if P (drop i xs) = Suc (find_if P (drop (Suc i) xs))"
proof -
  from assms(1) have "drop i xs = xs ! i # drop (Suc i) xs"
    by (simp add: Cons_nth_drop_Suc)
  with assms(2) show ?thesis by simp
qed

lemma find_if_drop_hit:
  assumes "i < length xs" "P (xs ! i)"
  shows "find_if P (drop i xs) = 0"
proof -
  from assms(1) have "drop i xs = xs ! i # drop (Suc i) xs"
    by (simp add: Cons_nth_drop_Suc)
  with assms(2) show ?thesis by simp
qed

lemma GetResult_loop_eq:
  assumes "length (tests s) \<le> INT_MAX" "i \<le> length (tests s)"
  shows "GetResult_loop i s name =
     (if i + find_if (\<lambda>t. Name t = name) (drop i (tests s)) < length (tests s)
      then at_index (testStatus s) (int (i + find_if (\<lambda>t. Name t = name) (drop i (tests s))))
      else None)"
  using assms(2)
proof (induction "length (tests s) - i" arbitrary: i)
  case 0
  then have "i = length (tests s)" by simp
  then show ?case by (simp add: GetResult_loop.simps)
next
  case (Suc d)
  then have lt: "i < length (tests s)" by simp
  show ?case
  proof (cases "Name (tests s ! i) = name")
    case True
    with lt have "find_if (\<lambda>t. Name t = name) (drop i (tests s)) = 0"
      by (simp add: find_if_drop_hit)
    with True lt show ?thesis by (simp add: GetResult_loop.simps [of i])
  next
    case False
    with lt have step: "find_if (\<lambda>t. Name t = name) (drop i (tests s)) =
        Suc (find_if (\<lambda>t. Name t = name) (drop (Suc i) (tests s)))"
      by (simp add: find_if_drop)
    from lt assms(1) have ne: "i \<noteq> INT_MAX" by simp
    from Suc(2) lt have "d = length (tests s) - Suc i" by simp
    moreover from lt have "Suc i \<le> length (tests s)" by simp
    ultimately have IH: "GetResult_loop (Suc i) s name =
     (if Suc i + find_if (\<lambda>t. Name t = name) (drop (Suc i) (tests s)) < length (tests s)
      then at_index (testStatus s) (int (Suc i + find_if (\<lambda>t. Name t = name) (drop (Suc i) (tests s))))
      else None)"
      by (rule Suc(1))
    from False lt ne have "GetResult_loop i s name = GetResult_loop (Suc i) s name"
      by (simp add: GetResult_loop.simps [of i])
    with IH step show ?thesis by simp
  qed
qed

text \<open>
  C9. In a suite whose two vectors have the same size (at most \<^verbatim>\<open>INT_MAX\<close>, which
  \<^verbatim>\<open>TestCase\<close> asserts), \<^verbatim>\<open>GetResult(name)\<close> has a defined value exactly when \<open>name\<close> is a
  declared case, and the value is the status at the first position of that name; for any
  other name control reaches the end of the function and there is no value.
\<close>

theorem GetResult_Some_iff_declared:
  assumes "length (testStatus s) = length (tests s)" and "length (tests s) \<le> INT_MAX"
  shows "(GetResult s name \<noteq> None) = (name \<in> set (GetTestNames s)) \<and>
         GetResult s name =
           (if name \<in> set (GetTestNames s)
            then Some (testStatus s ! find_if (\<lambda>t. Name t = name) (tests s))
            else None)"
proof -
  let ?f = "find_if (\<lambda>t. Name t = name) (tests s)"
  have eq: "GetResult s name = (if ?f < length (tests s) then at_index (testStatus s) (int ?f) else None)"
    unfolding GetResult_def using GetResult_loop_eq [OF assms(2), of 0 name] by simp
  have decl: "name \<in> set (GetTestNames s) \<longleftrightarrow> ?f < length (tests s)"
    using find_if_end_iff [of "\<lambda>t. Name t = name" "tests s"] find_if_le [of "\<lambda>t. Name t = name" "tests s"]
    by (auto simp: GetTestNames_def)
  from eq decl assms(1) show ?thesis by (auto simp: at_index_def)
qed

theorem GetResult_Some_iff_declared_witness:
  "GetResult suite_two ''b'' = Some FAILED \<and> GetResult suite_two ''c'' = None \<and>
   ''b'' \<in> set (GetTestNames suite_two) \<and> ''c'' \<notin> set (GetTestNames suite_two)"
proof -
  have 1: "length (testStatus suite_two) = length (tests suite_two)"
    by (simp add: suite_two_def)
  have 2: "length (tests suite_two) \<le> INT_MAX"
    by (simp add: suite_two_def INT_MAX_def)
  show ?thesis
    using GetResult_Some_iff_declared [OF 1 2, of "''b''"] GetResult_Some_iff_declared [OF 1 2, of "''c''"]
    by (simp add: suite_two_def GetTestNames_def)
qed

section \<open>TestEqual on a mismatch\<close>

text \<open>
  C4 (as amended). When the values differ and \<^verbatim>\<open>_currentRunningTest\<close> is the index of a
  case, \<^verbatim>\<open>TestEqual\<close> (on \<^verbatim>\<open>int\<close> and on \<^verbatim>\<open>unsigned int\<close>) writes one block to
  \<^verbatim>\<open>std::cerr\<close> that names the running case, the expected and the actual value; the text
  \<^verbatim>\<open>GetLog\<close> returns stays as it was. Compiled with \<^verbatim>\<open>NDEBUG\<close> it then returns false with
  \<^verbatim>\<open>_failed\<close> set; compiled with assertions the process ends at \<^verbatim>\<open>assert(false)\<close>.
\<close>

theorem TestEqual_mismatch_goes_to_cerr:
  assumes "val \<noteq> expected"
    and "at_index (GetTestNames s) (GetCurrentRunningTest s) = Some name"
  shows "TestEqual_int b val expected s w =
           (if NDEBUG b
            then Inr (False, s\<lparr>failed := True\<rparr>,
                      w\<lparr>cerr := cerr w @ ''In:'' @ name @ TEXT_RED @ [ENDLINE] @
                         ''Expected value to be '' @ dec_int (sint expected) @
                         '' but it was '' @ dec_int (sint val) @ [ENDLINE, ENDLINE]\<rparr>)
            else Inl (AssertionFailed,
                      w\<lparr>cerr := cerr w @ ''In:'' @ name @ TEXT_RED @ [ENDLINE] @
                         ''Expected value to be '' @ dec_int (sint expected) @
                         '' but it was '' @ dec_int (sint val) @ [ENDLINE, ENDLINE]\<rparr>)) \<and>
         TestEqual_unsigned b val expected s w =
           (if NDEBUG b
            then Inr (False, s\<lparr>failed := True\<rparr>,
                      w\<lparr>cerr := cerr w @ ''In:'' @ name @ TEXT_RED @ [ENDLINE] @
                         ''Expected value to be '' @ dec_nat (unat expected) @
                         '' but it was '' @ dec_nat (unat val) @ [ENDLINE, ENDLINE]\<rparr>)
            else Inl (AssertionFailed,
                      w\<lparr>cerr := cerr w @ ''In:'' @ name @ TEXT_RED @ [ENDLINE] @
                         ''Expected value to be '' @ dec_nat (unat expected) @
                         '' but it was '' @ dec_nat (unat val) @ [ENDLINE, ENDLINE]\<rparr>)) \<and>
         GetLog (s\<lparr>failed := True\<rparr>) = GetLog s"
  using assms
  by (simp add: TestEqual_int_def TestEqual_unsigned_def TestEqual_mismatch_def
      TestEqual_text_def assert_aborts_def GetLog_def Let_def)

lemma dec_int_5: "dec_int 5 = ''5''" and dec_int_6: "dec_int 6 = ''6''"
  by (simp_all add: dec_int_def dec_nat.simps)

theorem TestEqual_mismatch_goes_to_cerr_witness:
  "TestEqual_int build_NDEBUG 5 6 (suite_one\<lparr>currentRunningTest := 0\<rparr>) world0 =
     Inr (False, suite_one\<lparr>currentRunningTest := 0, failed := True\<rparr>,
          world0\<lparr>cerr := ''In:a'' @ TEXT_RED @ [ENDLINE] @
                   ''Expected value to be 6 but it was 5'' @ [ENDLINE, ENDLINE]\<rparr>)"
proof -
  have 1: "(5 :: 32 word) \<noteq> 6" by simp
  have 2: "at_index (GetTestNames (suite_one\<lparr>currentRunningTest := 0\<rparr>))
             (GetCurrentRunningTest (suite_one\<lparr>currentRunningTest := 0\<rparr>)) = Some ''a''"
    by (simp add: at_index_def GetTestNames_def GetCurrentRunningTest_def suite_one_def)
  show ?thesis
    using TestEqual_mismatch_goes_to_cerr [OF 1 2, of build_NDEBUG world0]
    by (simp add: build_NDEBUG_def dec_int_5 dec_int_6 world0_def)
qed

text \<open>
  C4 as stated fails: \<^verbatim>\<open>TestEqual(5, 6)\<close> inside case "a" returns false and leaves the log
  buffer empty, as it was; the line went to \<^verbatim>\<open>std::cerr\<close>.
\<close>

theorem TestEqual_mismatch_log_unchanged:
  "TestEqual_int build_NDEBUG 5 6 (suite_one\<lparr>currentRunningTest := 0\<rparr>) world0 =
     Inr (False, suite_one\<lparr>currentRunningTest := 0, failed := True\<rparr>,
          world0\<lparr>cerr := ''In:a'' @ TEXT_RED @ [ENDLINE] @
                   ''Expected value to be 6 but it was 5'' @ [ENDLINE, ENDLINE]\<rparr>) \<and>
   GetLog (suite_one\<lparr>currentRunningTest := 0, failed := True\<rparr>) = [] \<and>
   GetLog (suite_one\<lparr>currentRunningTest := 0\<rparr>) = []"
  by (simp add: TestEqual_int_def TestEqual_mismatch_def TestEqual_text_def assert_aborts_def
      GetLog_def str_def Let_def at_index_def GetTestNames_def GetCurrentRunningTest_def
      suite_one_def build_NDEBUG_def dec_int_5 dec_int_6 world0_def)

section \<open>Registering a class\<close>

text \<open>\<open>map_assign\<close> keeps the keys ascending and distinct, as a \<^verbatim>\<open>std::map\<close> is.\<close>

lemma map_assign_keys: "set (map fst (map_assign k v m)) = insert k (set (map fst m))"
proof (induction m)
  case Nil
  then show ?case by simp
next
  case (Cons e m)
  obtain k' v' where e: "e = (k', v')" by (cases e)
  show ?case
  proof (cases "k < k'")
    case True
    with e show ?thesis by simp
  next
    case False
    with e Cons.IH show ?thesis by (cases "k = k'") auto
  qed
qed

lemma map_assign_sorted:
  "sorted (map fst m) \<Longrightarrow> distinct (map fst m) \<Longrightarrow>
   sorted (map fst (map_assign k v m)) \<and> distinct (map fst (map_assign k v m))"
proof (induction m)
  case Nil
  then show ?case by simp
next
  case (Cons e m)
  obtain k' v' where e: "e = (k', v')" by (cases e)
  from Cons.prems e have sm: "sorted (map fst m)" "distinct (map fst m)"
    and le: "\<forall>x\<in>set (map fst m). k' \<le> x" and notin: "k' \<notin> set (map fst m)"
    by auto
  from Cons.IH [OF sm] have IH: "sorted (map fst (map_assign k v m))" "distinct (map fst (map_assign k v m))"
    by auto
  show ?case
  proof (cases "k < k'")
    case True
    with sm le notin e show ?thesis by (auto simp: less_le)
  next
    case False
    show ?thesis
    proof (cases "k = k'")
      case True
      with sm le notin e show ?thesis by simp
    next
      case ne: False
      with False have lt: "k' < k" by simp
      have keys: "set (map fst (map_assign k v m)) = insert k (set (map fst m))"
        by (rule map_assign_keys)
      from lt le keys have "\<forall>x\<in>set (map fst (map_assign k v m)). k' \<le> x"
        by auto
      moreover from ne notin keys have "k' \<notin> set (map fst (map_assign k v m))"
        by auto
      ultimately show ?thesis using IH e False ne by simp
    qed
  qed
qed

lemma map_assign_overwrite:
  "sorted (map fst m) \<Longrightarrow> distinct (map fst m) \<Longrightarrow> k \<in> set (map fst m) \<Longrightarrow>
   map_assign k v m = map (\<lambda>(k', v'). if k' = k then (k', v) else (k', v')) m"
proof (induction m)
  case Nil
  then show ?case by simp
next
  case (Cons e m)
  obtain k' v' where e: "e = (k', v')" by (cases e)
  from Cons.prems e have sm: "sorted (map fst m)" "distinct (map fst m)"
    and le: "\<forall>x\<in>set (map fst m). k' \<le> x" and notin: "k' \<notin> set (map fst m)"
    by auto
  show ?case
  proof (cases "k = k'")
    case True
    from notin have "map (\<lambda>(k'', v''). if k'' = k' then (k'', v) else (k'', v'')) m = m"
      by (induction m) auto
    with True e show ?thesis by simp
  next
    case False
    with Cons.prems e have kin: "k \<in> set (map fst m)" by auto
    with le have "k' \<le> k" by auto
    with False have "\<not> k < k'" by simp
    with False e Cons.IH [OF sm kin] show ?thesis by simp
  qed
qed

lemma overwrite_keys:
  "map fst (map (\<lambda>(k, v). if k = n then (k, T) else (k, v)) m) = map fst m"
  by (induction m) (auto split: prod.splits)

lemma overwrite_hit:
  "n \<in> set (map fst m) \<Longrightarrow>
   map_of (map (\<lambda>(k, v). if k = n then (k, T) else (k, v)) m) n = Some T"
  by (induction m) (auto split: prod.splits)

lemma overwrite_other:
  "k' \<noteq> n \<Longrightarrow>
   map_of (map (\<lambda>(k, v). if k = n then (k, T) else (k, v)) m) k' = map_of m k'"
  by (induction m) (auto split: prod.splits)

text \<open>
  C7. When \<open>testName\<close> is a key of the map already, \<^verbatim>\<open>AddTest\<close> replaces the factory
  stored under it and nothing else: the entries keep their order and keys, the lookup of
  \<open>testName\<close> gives the new factory, every other lookup gives what it gave before.
\<close>

theorem AddTest_overwrites:
  assumes "sorted (map fst (tester_tests a))" and "distinct (map fst (tester_tests a))"
    and "testName \<in> set (map fst (tester_tests a))"
  shows "AddTest testName T a =
           a\<lparr>tester_tests :=
               map (\<lambda>(k, v). if k = testName then (k, T) else (k, v)) (tester_tests a)\<rparr> \<and>
         map fst (tester_tests (AddTest testName T a)) = map fst (tester_tests a) \<and>
         map_of (tester_tests (AddTest testName T a)) testName = Some T \<and>
         (\<forall>k. k \<noteq> testName \<longrightarrow>
            map_of (tester_tests (AddTest testName T a)) k = map_of (tester_tests a) k)"
proof -
  have "map_assign testName T (tester_tests a) =
      map (\<lambda>(k, v). if k = testName then (k, T) else (k, v)) (tester_tests a)"
    using assms by (rule map_assign_overwrite)
  then have eq: "AddTest testName T a =
      a\<lparr>tester_tests :=
          map (\<lambda>(k, v). if k = testName then (k, T) else (k, v)) (tester_tests a)\<rparr>"
    by (simp add: AddTest_def)
  show ?thesis
    unfolding eq
    using overwrite_keys [of testName T "tester_tests a"]
      overwrite_hit [OF assms(3), of T] overwrite_other [of _ testName T "tester_tests a"]
    by (simp del: map_map)
qed

theorem AddTest_overwrites_witness:
  "AddTest ''A'' [(''x'', Return), (''y'', Return)] tester_two =
     \<lparr>tester_tests = [(''A'', [(''x'', Return), (''y'', Return)]), (''B'', [])], outstream = None\<rparr>"
proof -
  have 1: "sorted (map fst (tester_tests tester_two))"
    by (simp add: tester_two_def)
  have 2: "distinct (map fst (tester_tests tester_two))"
    by (simp add: tester_two_def)
  have 3: "''A'' \<in> set (map fst (tester_tests tester_two))"
    by (simp add: tester_two_def)
  show ?thesis
    using AddTest_overwrites [OF 1 2 3, of "[(''x'', Return), (''y'', Return)]"]
    by (simp add: tester_two_def)
qed

section \<open>Equality of floats\<close>

lemma bit_length_le: "bit_length n \<le> k \<longleftrightarrow> n < 2 ^ k"
proof (induction n arbitrary: k rule: bit_length.induct)
  case (1 n)
  show ?case
  proof (cases "n = 0")
    case True
    then show ?thesis by (simp add: bit_length.simps)
  next
    case False
    show ?thesis
    proof (cases k)
      case 0
      with False show ?thesis by (simp add: bit_length.simps [of n])
    next
      case (Suc j)
      from 1 [OF False, of j] have "bit_length (n div 2) \<le> j \<longleftrightarrow> n div 2 < 2 ^ j" .
      also have "\<dots> \<longleftrightarrow> n < 2 ^ Suc j" by auto
      finally show ?thesis using False Suc by (simp add: bit_length.simps [of n])
    qed
  qed
qed

lemma round_magnitude_split:
  assumes "\<not> bit_length n \<le> 24"
  obtains sh q r where "bit_length n = 24 + sh" and "n = q * 2 ^ sh + r" and "r < 2 ^ sh"
    and "round_magnitude n =
           (if 2 * r > 2 ^ sh \<or> (2 * r = 2 ^ sh \<and> odd q) then q + 1 else q) * 2 ^ sh"
proof -
  define sh where "sh = bit_length n - 24"
  define q where "q = n div 2 ^ sh"
  define r where "r = n mod 2 ^ sh"
  from assms have "bit_length n = 24 + sh" by (simp add: sh_def)
  moreover have "n = q * 2 ^ sh + r" by (simp only: q_def r_def div_mult_mod_eq)
  moreover have "r < 2 ^ sh" by (simp add: r_def)
  moreover have "round_magnitude n =
           (if 2 * r > 2 ^ sh \<or> (2 * r = 2 ^ sh \<and> odd q) then q + 1 else q) * 2 ^ sh"
    using assms by (simp add: round_magnitude_def Let_def sh_def q_def r_def)
  ultimately show thesis by (rule that)
qed

lemma round_magnitude_below:
  assumes "n < 2 ^ 126 - 2 ^ 101"
  shows "round_magnitude n < 2 ^ 126"
proof (cases "bit_length n \<le> 24")
  case True
  with assms show ?thesis by (simp add: round_magnitude_def)
next
  case False
  then obtain sh q r where k: "bit_length n = 24 + sh" and n: "n = q * 2 ^ sh + r"
    and r: "r < 2 ^ sh"
    and rm: "round_magnitude n =
           (if 2 * r > 2 ^ sh \<or> (2 * r = 2 ^ sh \<and> odd q) then q + 1 else q) * 2 ^ sh"
    by (rule round_magnitude_split)
  from assms have "n < 2 ^ 126" by simp
  then have "bit_length n \<le> 126" by (simp add: bit_length_le)
  with k have sh: "sh \<le> 102" by simp
  have "n < 2 ^ (24 + sh)" using bit_length_le [of n "24 + sh"] k by simp
  then have nk: "n < 2 ^ 24 * 2 ^ sh" by (simp only: power_add)
  have q: "q < 2 ^ 24"
  proof (rule ccontr)
    assume "\<not> q < 2 ^ 24"
    then have "2 ^ 24 \<le> q" by simp
    then have "2 ^ 24 * 2 ^ sh \<le> q * 2 ^ sh" by (rule mult_le_mono1)
    with n nk show False by simp
  qed
  show ?thesis
  proof (cases "sh = 102")
    case True
    show ?thesis
    proof (cases "q < 2 ^ 24 - 1")
      case True
      then have "q + 1 \<le> 2 ^ 24 - 1" by simp
      then have "(q + 1) * 2 ^ sh \<le> (2 ^ 24 - 1) * 2 ^ sh" by (rule mult_le_mono1)
      moreover have "round_magnitude n \<le> (q + 1) * 2 ^ sh" by (simp add: rm)
      ultimately show ?thesis using \<open>sh = 102\<close> by simp
    next
      case False
      with q have qq: "q = 2 ^ 24 - 1" by simp
      with n assms \<open>sh = 102\<close> have "r < 2 ^ 101" by simp
      with rm qq \<open>sh = 102\<close> show ?thesis by simp
    qed
  next
    case False
    with sh have "sh \<le> 101" by simp
    then have p: "(2::nat) ^ sh \<le> 2 ^ 101" by (rule power_increasing) simp
    from q have q1: "q + 1 \<le> 2 ^ 24" by simp
    have "round_magnitude n \<le> (q + 1) * 2 ^ sh" by (simp add: rm)
    also from q1 have "\<dots> \<le> 2 ^ 24 * 2 ^ sh" by (rule mult_le_mono1)
    also from p have "\<dots> \<le> 2 ^ 24 * 2 ^ 101" by (rule mult_le_mono2)
    also have "\<dots> < 2 ^ 126" by simp
    finally show ?thesis .
  qed
qed

lemma round_magnitude_above:
  assumes "\<not> n < 2 ^ 126 - 2 ^ 101"
  shows "\<not> round_magnitude n < 2 ^ 126"
proof -
  from assms have "\<not> n < 2 ^ 125" by simp
  then have k125: "\<not> bit_length n \<le> 125" by (simp add: bit_length_le)
  then have "\<not> bit_length n \<le> 24" by simp
  then obtain sh q r where k: "bit_length n = 24 + sh" and n: "n = q * 2 ^ sh + r"
    and r: "r < 2 ^ sh"
    and rm: "round_magnitude n =
           (if 2 * r > 2 ^ sh \<or> (2 * r = 2 ^ sh \<and> odd q) then q + 1 else q) * 2 ^ sh"
    by (rule round_magnitude_split)
  from k125 k have sh: "102 \<le> sh" by simp
  have ge: "q * 2 ^ sh \<le> round_magnitude n" by (simp add: rm)
  show ?thesis
  proof (cases "sh = 102")
    case True
    have "n < 2 ^ (24 + sh)" using bit_length_le [of n "24 + sh"] k by simp
    with True have nk: "n < 2 ^ 126" by simp
    have q: "q < 2 ^ 24"
    proof (rule ccontr)
      assume "\<not> q < 2 ^ 24"
      then have "2 ^ 24 \<le> q" by simp
      then have "2 ^ 24 * 2 ^ sh \<le> q * 2 ^ sh" by (rule mult_le_mono1)
      with n nk True show False by simp
    qed
    have "\<not> q < 2 ^ 24 - 1"
    proof
      assume "q < 2 ^ 24 - 1"
      then have "q + 1 \<le> 2 ^ 24 - 1" by simp
      then have "(q + 1) * 2 ^ sh \<le> (2 ^ 24 - 1) * 2 ^ sh" by (rule mult_le_mono1)
      moreover from r n have "n < (q + 1) * 2 ^ sh" by simp
      ultimately have "n < (2 ^ 24 - 1) * 2 ^ sh" by (rule less_le_trans [rotated])
      with assms True show False by simp
    qed
    with q have qq: "q = 2 ^ 24 - 1" by simp
    with n assms True have "2 ^ 101 \<le> r" by simp
    with rm qq True show ?thesis by simp
  next
    case False
    with sh have "103 \<le> sh" by simp
    then have "(2::nat) ^ 103 \<le> 2 ^ sh" by (intro power_increasing) simp_all
    then have big: "2 ^ 23 * (2::nat) ^ 103 \<le> 2 ^ 23 * 2 ^ sh" by (rule mult_le_mono2)
    have "\<not> n < 2 ^ (23 + sh)" using bit_length_le [of n "23 + sh"] k by simp
    then have lo: "2 ^ 23 * 2 ^ sh \<le> n" by (simp add: power_add)
    have "2 ^ 23 \<le> q"
    proof (rule ccontr)
      assume "\<not> 2 ^ 23 \<le> q"
      then have "q + 1 \<le> 2 ^ 23" by simp
      then have "(q + 1) * 2 ^ sh \<le> 2 ^ 23 * 2 ^ sh" by (rule mult_le_mono1)
      moreover from r n have "n < (q + 1) * 2 ^ sh" by simp
      ultimately have "n < 2 ^ 23 * 2 ^ sh" by (rule less_le_trans [rotated])
      with lo show False by simp
    qed
    then have "2 ^ 23 * 2 ^ sh \<le> q * 2 ^ sh" by (rule mult_le_mono1)
    with big have "2 ^ 23 * (2::nat) ^ 103 \<le> q * 2 ^ sh" by (rule le_trans)
    with ge have "2 ^ 23 * (2::nat) ^ 103 \<le> round_magnitude n" by (rule le_trans [rotated])
    then show ?thesis by simp
  qed
qed

lemma FLT_EPSILON_value: "float_value_of FLT_EPSILON = Finite (2 ^ 126)"
  by (simp add: float_value_of_def FLT_EPSILON_def float_exponent_def float_fraction_def float_sign_def)

lemma float_round_less:
  "float_less (glm_abs (float_round d)) (Finite (2 ^ 126)) \<longleftrightarrow> \<bar>d\<bar> < 2 ^ 126 - 2 ^ 101"
proof -
  define m where "m = round_magnitude (nat \<bar>d\<bar>)"
  have fr: "float_round d =
      (if m > FLT_MAX_units then Infinite (d < 0) else Finite (if d < 0 then - int m else int m))"
    by (simp add: float_round_def m_def Let_def)
  have "m < 2 ^ 126 \<longleftrightarrow> nat \<bar>d\<bar> < 2 ^ 126 - 2 ^ 101"
    unfolding m_def using round_magnitude_below [of "nat \<bar>d\<bar>"] round_magnitude_above [of "nat \<bar>d\<bar>"]
    by blast
  also have "\<dots> \<longleftrightarrow> \<bar>d\<bar> < 2 ^ 126 - 2 ^ 101" by (simp add: nat_less_iff)
  finally have m: "m < 2 ^ 126 \<longleftrightarrow> \<bar>d\<bar> < 2 ^ 126 - 2 ^ 101" .
  have i: "int m < 2 ^ 126 \<longleftrightarrow> m < 2 ^ 126" by (simp flip: of_nat_less_iff)
  show ?thesis
  proof (cases "m > FLT_MAX_units")
    case True
    then have "\<not> m < 2 ^ 126" by (simp add: FLT_MAX_units_def)
    with True m show ?thesis by (simp add: fr)
  next
    case False
    with m i show ?thesis by (simp add: fr)
  qed
qed

lemma floatsAlmostSame_exactly:
  "floatsAlmostSame a b FLT_EPSILON =
     (case float_value_of a of
        Finite x \<Rightarrow> (case float_value_of b of Finite y \<Rightarrow> \<bar>x - y\<bar> < 2 ^ 126 - 2 ^ 101 | _ \<Rightarrow> False)
      | _ \<Rightarrow> False)"
proof -
  have "float_less (glm_abs (float_round (x - y))) (Finite (2 ^ 126)) \<longleftrightarrow>
      \<bar>x - y\<bar> < 2 ^ 126 - 2 ^ 101" for x y
    by (rule float_round_less)
  then show ?thesis
    by (cases "float_value_of a"; cases "float_value_of b")
       (simp_all add: floatsAlmostSame_def FLT_EPSILON_value del: power_numeral)
qed

text \<open>The literals \<^verbatim>\<open>1.0f\<close>, \<^verbatim>\<open>1.0000001f\<close> and \<^verbatim>\<open>1.1f\<close>, and the float just below 1.\<close>

lemma float_literal_1: "float_literal 10 10 = 0x3F800000"
  and float_literal_1_0000001: "float_literal 10000001 10000000 = 0x3F800001"
  and float_literal_1_1: "float_literal 11 10 = 0x3F8CCCCD"
  by (simp_all add: float_literal_def float_encode_def bit_length.simps Let_def)

lemma float_value_of_examples:
  "float_value_of 0x3F800000 = Finite (2 ^ 149)"
  "float_value_of 0x3F800001 = Finite (2 ^ 149 + 2 ^ 126)"
  "float_value_of 0x3F8CCCCD = Finite (0x8CCCCD * 2 ^ 126)"
  "float_value_of 0x3F7FFFFF = Finite (2 ^ 149 - 2 ^ 125)"
  by (simp_all add: float_value_of_def float_exponent_def float_fraction_def float_sign_def)

text \<open>
  C8 (as amended). \<^verbatim>\<open>TestEqual(float, float)\<close> compares with \<^verbatim>\<open>__floatsAlmostSame\<close> and the
  fixed epsilon \<^verbatim>\<open>FLT_EPSILON\<close>, which is \<open>2^-23\<close>, in float arithmetic: the difference is
  rounded to a float before it is compared. For finite values the call passes exactly when
  \<open>|val - expected| < 2^-23 - 2^-48\<close> (in units of \<open>2^-149\<close>: \<open>2^126 - 2^101\<close>); it never
  passes when one of the two is an infinity or a NaN. When it does not pass, the branch of
  the mismatch is taken.
\<close>

theorem TestEqual_float_passes_iff:
  "TestEqual_float b val expected s w =
     (if (case float_value_of val of
            Finite x \<Rightarrow>
              (case float_value_of expected of
                 Finite y \<Rightarrow> \<bar>x - y\<bar> < 2 ^ 126 - 2 ^ 101
               | _ \<Rightarrow> False)
          | _ \<Rightarrow> False)
      then Inr (True, s, w)
      else TestEqual_mismatch b (float_text b expected) (float_text b val) s w)"
proof -
  have "floatsAlmostSame val expected FLT_EPSILON =
     (case float_value_of val of
        Finite x \<Rightarrow>
          (case float_value_of expected of
             Finite y \<Rightarrow> \<bar>x - y\<bar> < 2 ^ 126 - 2 ^ 101
           | _ \<Rightarrow> False)
      | _ \<Rightarrow> False)"
    by (rule floatsAlmostSame_exactly)
  then show ?thesis
    by (simp add: TestEqual_float_def del: power_numeral)
qed

text \<open>What is printed for \<^verbatim>\<open>1.0f\<close>, \<^verbatim>\<open>1.0000001f\<close> and \<^verbatim>\<open>1.1f\<close>.\<close>

lemma dec_nat_100000: "dec_nat 100000 = ''100000''" and dec_nat_110000: "dec_nat 110000 = ''110000''"
  by (simp_all add: dec_nat.simps)

lemma float_text_glibc_1: "float_text_glibc 0x3F800000 = ''1''"
proof -
  have v: "float_value_of 0x3F800000 = Finite (2 ^ 149)"
    by (simp add: float_value_of_examples)
  have 1: "decimal_exponent (2 ^ 149) = 0"
    by (simp add: decimal_exponent_def at_least_power_of_ten_def decimal_exponent_from.simps)
  have 2: "six_digits (2 ^ 149) 0 = 100000"
    by (simp add: six_digits_def round_half_even_def Let_def)
  have 3: "printf_g (2 ^ 149) = printf_g_digits 0 (dec_nat 100000)"
    using 1 2 by (simp add: printf_g_def Let_def)
  have 4: "printf_g_digits 0 ''100000'' = ''1''"
    by (simp add: printf_g_digits_def strip_zeros_def point_and_def)
  from v 3 4 show ?thesis
    by (simp add: float_text_glibc_def float_sign_def dec_nat_100000)
qed

lemma float_text_glibc_1_0000001: "float_text_glibc 0x3F800001 = ''1''"
proof -
  have v: "float_value_of 0x3F800001 = Finite (2 ^ 149 + 2 ^ 126)"
    by (simp add: float_value_of_examples)
  have 1: "decimal_exponent (2 ^ 149 + 2 ^ 126) = 0"
    by (simp add: decimal_exponent_def at_least_power_of_ten_def decimal_exponent_from.simps)
  have 2: "six_digits (2 ^ 149 + 2 ^ 126) 0 = 100000"
    by (simp add: six_digits_def round_half_even_def Let_def)
  have 3: "printf_g (2 ^ 149 + 2 ^ 126) = printf_g_digits 0 (dec_nat 100000)"
    using 1 2 by (simp add: printf_g_def Let_def)
  have 4: "printf_g_digits 0 ''100000'' = ''1''"
    by (simp add: printf_g_digits_def strip_zeros_def point_and_def)
  from v 3 4 show ?thesis
    by (simp add: float_text_glibc_def float_sign_def dec_nat_100000)
qed

lemma float_text_glibc_1_1: "float_text_glibc 0x3F8CCCCD = ''1.1''"
proof -
  have v: "float_value_of 0x3F8CCCCD = Finite (0x8CCCCD * 2 ^ 126)"
    by (simp add: float_value_of_examples)
  have 1: "decimal_exponent (0x8CCCCD * 2 ^ 126) = 0"
    by (simp add: decimal_exponent_def at_least_power_of_ten_def decimal_exponent_from.simps)
  have 2: "six_digits (0x8CCCCD * 2 ^ 126) 0 = 110000"
    by (simp add: six_digits_def round_half_even_def Let_def)
  have 3: "printf_g (0x8CCCCD * 2 ^ 126) = printf_g_digits 0 (dec_nat 110000)"
    using 1 2 by (simp add: printf_g_def Let_def)
  have 4: "printf_g_digits 0 ''110000'' = ''1.1''"
    by (simp add: printf_g_digits_def strip_zeros_def point_and_def)
  from v 3 4 show ?thesis
    by (simp add: float_text_glibc_def float_sign_def dec_nat_110000)
qed

text \<open>
  \<^verbatim>\<open>TestEqual(1.1f, 1.0f)\<close> fails, and \<^verbatim>\<open>TestEqual\<close> of the float just below 1 and \<^verbatim>\<open>1.0f\<close>,
  which differ by \<open>2^-24\<close>, passes; in the suite with the one case "a", running.
\<close>

theorem TestEqual_float_passes_iff_witness:
  "float_literal 11 10 = 0x3F8CCCCD \<and> float_literal 10 10 = 0x3F800000 \<and>
   TestEqual_float build_NDEBUG 0x3F8CCCCD 0x3F800000 (suite_one\<lparr>currentRunningTest := 0\<rparr>) world0 =
     Inr (False, suite_one\<lparr>currentRunningTest := 0, failed := True\<rparr>,
          world0\<lparr>cerr := ''In:a'' @ TEXT_RED @ [ENDLINE] @
                   ''Expected value to be 1 but it was 1.1'' @ [ENDLINE, ENDLINE]\<rparr>) \<and>
   TestEqual_float build_NDEBUG 0x3F7FFFFF 0x3F800000 (suite_one\<lparr>currentRunningTest := 0\<rparr>) world0 =
     Inr (True, suite_one\<lparr>currentRunningTest := 0\<rparr>, world0)"
  using TestEqual_float_passes_iff [of build_NDEBUG "0x3F8CCCCD" "0x3F800000"
      "suite_one\<lparr>currentRunningTest := 0\<rparr>" world0]
    TestEqual_float_passes_iff [of build_NDEBUG "0x3F7FFFFF" "0x3F800000"
      "suite_one\<lparr>currentRunningTest := 0\<rparr>" world0]
  by (simp add: float_value_of_examples float_literal_1 float_literal_1_1
      TestEqual_mismatch_def TestEqual_text_def at_index_def GetTestNames_def
      GetCurrentRunningTest_def assert_aborts_def suite_one_def world0_def build_NDEBUG_def
      float_text_glibc_1 float_text_glibc_1_1)

text \<open>
  C8 as stated fails in its first example: the float nearest to 1.0000001 is \<open>1 + 2^-23\<close>,
  its difference to \<^verbatim>\<open>1.0f\<close> is exactly the epsilon, not below it, and
  \<^verbatim>\<open>TestEqual(1.0000001f, 1.0f)\<close> takes the branch of the mismatch (both values are printed
  as 1).
\<close>

theorem TestEqual_float_1_0000001_fails:
  "float_literal 10000001 10000000 = 0x3F800001 \<and> float_literal 10 10 = 0x3F800000 \<and>
   \<not> floatsAlmostSame 0x3F800001 0x3F800000 FLT_EPSILON \<and>
   TestEqual_float build_NDEBUG 0x3F800001 0x3F800000 (suite_one\<lparr>currentRunningTest := 0\<rparr>) world0 =
     Inr (False, suite_one\<lparr>currentRunningTest := 0, failed := True\<rparr>,
          world0\<lparr>cerr := ''In:a'' @ TEXT_RED @ [ENDLINE] @
                   ''Expected value to be 1 but it was 1'' @ [ENDLINE, ENDLINE]\<rparr>)"
  by (simp add: TestEqual_float_def floatsAlmostSame_exactly float_value_of_examples
      float_literal_1 float_literal_1_0000001
      TestEqual_mismatch_def TestEqual_text_def at_index_def GetTestNames_def
      GetCurrentRunningTest_def assert_aborts_def suite_one_def world0_def build_NDEBUG_def
      float_text_glibc_1 float_text_glibc_1_0000001)

section \<open>Running one case\<close>

lemma find_if_declared:
  "name \<in> set (map f xs) \<longleftrightarrow> find_if (\<lambda>t. f t = name) xs < length xs"
  using find_if_end_iff [of "\<lambda>t. f t = name" xs] find_if_le [of "\<lambda>t. f t = name" xs]
  by auto

lemma find_if_distinct:
  "distinct (map f xs) \<Longrightarrow> i < length xs \<Longrightarrow> find_if (\<lambda>t. f t = f (xs ! i)) xs = i"
proof (induction xs arbitrary: i)
  case Nil
  then show ?case by simp
next
  case (Cons x xs)
  show ?case
  proof (cases i)
    case 0
    then show ?thesis by simp
  next
    case (Suc j)
    with Cons.prems have "j < length xs" "f (xs ! j) \<in> set (map f xs)" "f x \<notin> set (map f xs)"
      by auto
    then have "f x \<noteq> f (xs ! j)" by metis
    with Cons Suc show ?thesis by simp
  qed
qed

text \<open>
  \<^verbatim>\<open>RunTest\<close> as one equation: \<open>i\<close> is the first position of the name. The action starts
  with the flags reset and the index set; what it leaves decides the outcome.
\<close>

lemma RunTest_eq:
  assumes "length (tests s) \<le> INT_MAX"
  shows "RunTest b name s w =
     (if name \<notin> set (GetTestNames s)
      then Inl (if NDEBUG b then UndefinedBehaviour else AssertionFailed, w)
      else
        (let i = find_if (\<lambda>t. Name t = name) (tests s) in
         case exec b (Func (tests s ! i)) (s\<lparr>failed := False, currentRunningTest := int i\<rparr>)
                (w\<lparr>DoWork_calls := DoWork_calls w @ [tests s ! i]\<rparr>) of
           Inl e \<Rightarrow> Inl e
         | Inr (u, s3, w3) \<Rightarrow>
             if currentRunningTest s3 = int i \<and> i < length (testStatus s3)
             then Inr (\<not> failed s3,
                       s3\<lparr>testStatus := (testStatus s3)[i := if failed s3 then FAILED else PASSED]\<rparr>,
                       w3)
             else Inl (UndefinedBehaviour, w3)))"
proof (cases "name \<in> set (GetTestNames s)")
  case False
  then have "find_if (\<lambda>t. Name t = name) (tests s) = length (tests s)"
    using find_if_declared [of name Name "tests s"] find_if_le [of "\<lambda>t. Name t = name" "tests s"]
    by (simp add: GetTestNames_def)
  with False show ?thesis
    by (simp add: RunTest_def ResetFlags_def assert_aborts_def Let_def)
next
  case True
  let ?i = "find_if (\<lambda>t. Name t = name) (tests s)"
  let ?s2 = "s\<lparr>failed := False, currentRunningTest := int ?i\<rparr>"
  let ?w2 = "w\<lparr>DoWork_calls := DoWork_calls w @ [tests s ! ?i]\<rparr>"
  from True have lt: "?i < length (tests s)"
    using find_if_declared [of name Name "tests s"] by (simp add: GetTestNames_def)
  with assms have "?i < 2 ^ 31" by (simp add: INT_MAX_def)
  then have cast: "static_cast_int ?i = int ?i" by (rule static_cast_int_small)
  have unfold: "RunTest b name s w =
      (case exec b (Func (tests s ! ?i)) ?s2 ?w2 of
         Inl e \<Rightarrow> Inl e
       | Inr (u, s3, w3) \<Rightarrow>
           (case assign_at (testStatus s3) (currentRunningTest s3)
                   (if failed s3 then FAILED else PASSED) of
              None \<Rightarrow> Inl (UndefinedBehaviour, w3)
            | Some st \<Rightarrow> Inr (\<not> failed s3, s3\<lparr>testStatus := st\<rparr>, w3)))"
    using lt cast by (simp add: RunTest_def ResetFlags_def DoWork_def Let_def)
  show ?thesis
  proof (cases "exec b (Func (tests s ! ?i)) ?s2 ?w2")
    case (Inl e)
    with True unfold show ?thesis by (simp add: Let_def)
  next
    case (Inr x)
    then obtain u s3 w3 where x: "exec b (Func (tests s ! ?i)) ?s2 ?w2 = Inr (u, s3, w3)"
      by (cases x) auto
    from exec_framed [OF x] have "currentRunningTest s3 = int ?i \<or> currentRunningTest s3 = - 1"
      by (simp add: framed_def)
    then have "assign_at (testStatus s3) (currentRunningTest s3) (if failed s3 then FAILED else PASSED) =
        (if currentRunningTest s3 = int ?i \<and> ?i < length (testStatus s3)
         then Some ((testStatus s3)[?i := if failed s3 then FAILED else PASSED]) else None)"
      by (auto simp: assign_at_def)
    with True unfold x show ?thesis by (simp add: Let_def)
  qed
qed

text \<open>
  C2 (as amended). \<^verbatim>\<open>RunTest(name)\<close> resets the flags and looks the name up. For a name that
  is not declared it ends the process (the assertion; with \<^verbatim>\<open>NDEBUG\<close> the end iterator is
  dereferenced). For a declared name, with \<open>i\<close> its first position: whatever the flags were,
  the action of case \<open>i\<close> starts with \<^verbatim>\<open>_failed\<close> false and \<^verbatim>\<open>_currentRunningTest\<close> equal
  to \<open>i\<close>. When the action ends the process, so does \<^verbatim>\<open>RunTest\<close>. When it returns and
  \<^verbatim>\<open>_currentRunningTest\<close> is still \<open>i\<close> (and there is an outcome at \<open>i\<close>), the outcome of case
  \<open>i\<close> becomes \<^verbatim>\<open>FAILED\<close> if \<^verbatim>\<open>_failed\<close> is set and \<^verbatim>\<open>PASSED\<close> otherwise, and the negation
  of \<^verbatim>\<open>_failed\<close> is returned. When it returns after a call of \<^verbatim>\<open>ResetFlags\<close>, the index is
  -1, the write of the outcome is out of range, and no outcome is recorded. No action
  changes the cases or an outcome, and the index it leaves is the one it found or -1.
\<close>

theorem RunTest_steps:
  assumes "length (tests s) \<le> INT_MAX"
  shows "RunTest b name s w =
     (if name \<notin> set (GetTestNames s)
      then Inl (if NDEBUG b then UndefinedBehaviour else AssertionFailed, w)
      else
        (let i = find_if (\<lambda>t. Name t = name) (tests s) in
         case exec b (Func (tests s ! i)) (s\<lparr>failed := False, currentRunningTest := int i\<rparr>)
                (w\<lparr>DoWork_calls := DoWork_calls w @ [tests s ! i]\<rparr>) of
           Inl e \<Rightarrow> Inl e
         | Inr (u, s3, w3) \<Rightarrow>
             if currentRunningTest s3 = int i \<and> i < length (testStatus s3)
             then Inr (\<not> failed s3,
                       s3\<lparr>testStatus := (testStatus s3)[i := if failed s3 then FAILED else PASSED]\<rparr>,
                       w3)
             else Inl (UndefinedBehaviour, w3))) \<and>
     (\<forall>a s2 w2 u s3 w3.
        exec b a s2 w2 = Inr (u, s3, w3) \<longrightarrow>
          tests s3 = tests s2 \<and> testStatus s3 = testStatus s2 \<and>
          (currentRunningTest s3 = currentRunningTest s2 \<or> currentRunningTest s3 = - 1))"
proof (rule conjI)
  show "RunTest b name s w =
     (if name \<notin> set (GetTestNames s)
      then Inl (if NDEBUG b then UndefinedBehaviour else AssertionFailed, w)
      else
        (let i = find_if (\<lambda>t. Name t = name) (tests s) in
         case exec b (Func (tests s ! i)) (s\<lparr>failed := False, currentRunningTest := int i\<rparr>)
                (w\<lparr>DoWork_calls := DoWork_calls w @ [tests s ! i]\<rparr>) of
           Inl e \<Rightarrow> Inl e
         | Inr (u, s3, w3) \<Rightarrow>
             if currentRunningTest s3 = int i \<and> i < length (testStatus s3)
             then Inr (\<not> failed s3,
                       s3\<lparr>testStatus := (testStatus s3)[i := if failed s3 then FAILED else PASSED]\<rparr>,
                       w3)
             else Inl (UndefinedBehaviour, w3)))"
    using assms by (rule RunTest_eq)
next
  show "\<forall>a s2 w2 u s3 w3.
        exec b a s2 w2 = Inr (u, s3, w3) \<longrightarrow>
          tests s3 = tests s2 \<and> testStatus s3 = testStatus s2 \<and>
          (currentRunningTest s3 = currentRunningTest s2 \<or> currentRunningTest s3 = - 1)"
  proof (intro allI impI)
    fix a s2 w2 u s3 w3
    assume "exec b a s2 w2 = Inr (u, s3, w3)"
    from exec_framed [OF this]
    show "tests s3 = tests s2 \<and> testStatus s3 = testStatus s2 \<and>
          (currentRunningTest s3 = currentRunningTest s2 \<or> currentRunningTest s3 = - 1)"
      by (simp add: framed_def)
  qed
qed

theorem RunTest_steps_witness:
  "RunTest build_assertions ''a'' (suite_ab\<lparr>failed := True, currentRunningTest := 1\<rparr>) world0 =
     Inr (False,
          suite_ab\<lparr>failed := True, currentRunningTest := 0, testStatus := [FAILED, NOT_TESTED]\<rparr>,
          world0\<lparr>DoWork_calls := [\<lparr>Name = ''a'', Func = Call_TestTrue False (\<lambda>r. Return)\<rparr>]\<rparr>) \<and>
   RunTest build_assertions ''b'' (suite_ab\<lparr>failed := True, currentRunningTest := 1\<rparr>) world0 =
     Inr (True,
          suite_ab\<lparr>failed := False, currentRunningTest := 1, testStatus := [NOT_TESTED, PASSED]\<rparr>,
          world0\<lparr>DoWork_calls := [\<lparr>Name = ''b'', Func = Return\<rparr>]\<rparr>) \<and>
   RunTest build_assertions ''c'' (suite_ab\<lparr>failed := True, currentRunningTest := 1\<rparr>) world0 =
     Inl (AssertionFailed, world0)"
proof -
  have 1: "length (tests (suite_ab\<lparr>failed := True, currentRunningTest := 1\<rparr>)) \<le> INT_MAX"
    by (simp add: suite_ab_def INT_MAX_def)
  show "RunTest build_assertions ''a'' (suite_ab\<lparr>failed := True, currentRunningTest := 1\<rparr>) world0 =
     Inr (False,
          suite_ab\<lparr>failed := True, currentRunningTest := 0, testStatus := [FAILED, NOT_TESTED]\<rparr>,
          world0\<lparr>DoWork_calls := [\<lparr>Name = ''a'', Func = Call_TestTrue False (\<lambda>r. Return)\<rparr>]\<rparr>) \<and>
   RunTest build_assertions ''b'' (suite_ab\<lparr>failed := True, currentRunningTest := 1\<rparr>) world0 =
     Inr (True,
          suite_ab\<lparr>failed := False, currentRunningTest := 1, testStatus := [NOT_TESTED, PASSED]\<rparr>,
          world0\<lparr>DoWork_calls := [\<lparr>Name = ''b'', Func = Return\<rparr>]\<rparr>) \<and>
   RunTest build_assertions ''c'' (suite_ab\<lparr>failed := True, currentRunningTest := 1\<rparr>) world0 =
     Inl (AssertionFailed, world0)"
    using RunTest_steps [OF 1, of build_assertions "''a''" world0, THEN conjunct1]
      RunTest_steps [OF 1, of build_assertions "''b''" world0, THEN conjunct1]
      RunTest_steps [OF 1, of build_assertions "''c''" world0, THEN conjunct1]
    by (simp add: suite_ab_def GetTestNames_def TestTrue_def world0_def build_assertions_def Let_def)
qed

text \<open>
  C2 as stated fails for a declared case whose action calls \<^verbatim>\<open>ResetFlags\<close>: when the action
  of "r" returns, \<^verbatim>\<open>_currentRunningTest\<close> is -1, \<^verbatim>\<open>_testStatus[-1]\<close> is written, and the
  outcome of "r" is not set.
\<close>

theorem RunTest_after_ResetFlags:
  "RunTest build_assertions ''r'' suite_reset world0 =
     Inl (UndefinedBehaviour,
          world0\<lparr>DoWork_calls := [\<lparr>Name = ''r'', Func = Call_ResetFlags Return\<rparr>]\<rparr>) \<and>
   RunTest build_NDEBUG ''r'' suite_reset world0 =
     Inl (UndefinedBehaviour,
          world0\<lparr>DoWork_calls := [\<lparr>Name = ''r'', Func = Call_ResetFlags Return\<rparr>]\<rparr>)"
  by (simp add: RunTest_def DoWork_def ResetFlags_def static_cast_int_def assign_at_def
      suite_reset_def world0_def Let_def)

section \<open>Declaring cases\<close>

text \<open>
  The suites the properties are about: compiled with assertions, \<^verbatim>\<open>TestCase\<close> with names
  free of NUL leaves the names distinct, the two vectors of the same size, and at most
  \<^verbatim>\<open>INT_MAX\<close> cases; \<^verbatim>\<open>GetTestNames\<close> is the list of the declared names in their order.
  (A name with a NUL is stored cut at the NUL, and compared uncut.)
\<close>

lemma c_str_no_NUL: "CHR 0x00 \<notin> set name \<Longrightarrow> c_str name = name"
  by (simp add: c_str_def takeWhile_eq_all_conv) metis

lemma TestCase_invariant:
  assumes "\<not> NDEBUG b" and "CHR 0x00 \<notin> set name"
    and "TestCase b name f s = Inr s'"
    and "distinct (GetTestNames s)" and "length (testStatus s) = length (tests s)"
  shows "distinct (GetTestNames s') \<and> length (testStatus s') = length (tests s') \<and>
         length (tests s') \<le> INT_MAX \<and> GetTestNames s' = GetTestNames s @ [name] \<and>
         testStatus s' = testStatus s @ [NOT_TESTED]"
proof -
  from assms(1,3) have new: "find_if (\<lambda>t. Name t = name) (tests s) = length (tests s)"
    and small: "length (tests s) < INT_MAX"
    and s': "s' = s\<lparr>tests := tests s @ [DTestCase_ctor name f],
                      testStatus := testStatus s @ [NOT_TESTED]\<rparr>"
    by (auto simp: TestCase_def assert_aborts_def split: if_splits)
  from new have "name \<notin> set (GetTestNames s)"
    using find_if_declared [of name Name "tests s"] by (simp add: GetTestNames_def)
  with assms(2,4,5) small s' show ?thesis
    by (simp add: GetTestNames_def DTestCase_ctor_def c_str_no_NUL)
qed

lemma Define_invariant:
  assumes "\<not> NDEBUG b" and "\<forall>c\<in>set T. CHR 0x00 \<notin> set (fst c)"
    and "Define b T s = Inr s'"
    and "distinct (GetTestNames s)" and "length (testStatus s) = length (tests s)"
    and "length (tests s) \<le> INT_MAX"
  shows "distinct (GetTestNames s') \<and> length (testStatus s') = length (tests s') \<and>
         length (tests s') \<le> INT_MAX \<and> GetTestNames s' = GetTestNames s @ map fst T"
  using assms(2-)
proof (induction T arbitrary: s)
  case Nil
  then show ?case by simp
next
  case (Cons c T)
  obtain name f where c: "c = (name, f)" by (cases c)
  with Cons.prems(2) obtain s1 where 1: "TestCase b name f s = Inr s1" and 2: "Define b T s1 = Inr s'"
    by (auto split: sum.splits)
  from Cons.prems(1) c have nn: "CHR 0x00 \<notin> set name" "\<forall>c\<in>set T. CHR 0x00 \<notin> set (fst c)"
    by simp_all
  from TestCase_invariant [OF assms(1) nn(1) 1 Cons.prems(3,4)]
  have inv1: "distinct (GetTestNames s1)" "length (testStatus s1) = length (tests s1)"
    "length (tests s1) \<le> INT_MAX" "GetTestNames s1 = GetTestNames s @ [name]"
    by blast+
  from Cons.IH [OF nn(2) 2 inv1(1-3)]
  have r: "distinct (GetTestNames s')" "length (testStatus s') = length (tests s')"
    "length (tests s') \<le> INT_MAX" "GetTestNames s' = GetTestNames s1 @ map fst T"
    by blast+
  from r(4) inv1(4) c have "GetTestNames s' = GetTestNames s @ map fst (c # T)" by simp
  with r(1-3) show ?case by blast
qed

section \<open>Running all cases of a suite\<close>


lemma first_named_tests: "tests s1 = tests s \<Longrightarrow> first_named s1 = first_named s"
  by (simp add: first_named_def fun_eq_iff)

lemma first_named_distinct:
  assumes "distinct (GetTestNames s)"
  shows "map (first_named s) (take n (tests s)) = take n (tests s)"
proof (rule map_idI)
  fix t
  assume "t \<in> set (take n (tests s))"
  then have "t \<in> set (tests s)" by (rule in_set_takeD)
  then obtain i where i: "i < length (tests s)" "t = tests s ! i"
    by (auto simp: in_set_conv_nth)
  from assms i(1) have "find_if (\<lambda>u. Name u = Name (tests s ! i)) (tests s) = i"
    unfolding GetTestNames_def by (rule find_if_distinct)
  with i(2) show "first_named s t = t" by (simp add: first_named_def)
qed

text \<open>When a call ends the process, no further \<^verbatim>\<open>DoWork()\<close> has been called.\<close>

lemma TestEqual_Inl:
  assumes "TestEqual_int b v e s w = Inl (x, w') \<or>
           TestEqual_unsigned b v e s w = Inl (x, w') \<or>
           TestEqual_float b v e s w = Inl (x, w')"
  shows "DoWork_calls w' = DoWork_calls w \<and> (x = AssertionFailed \<longrightarrow> \<not> NDEBUG b)"
  using assms
  by (auto simp: TestEqual_int_def TestEqual_unsigned_def TestEqual_float_def
      TestEqual_mismatch_def assert_aborts_def Let_def split: if_splits option.splits)

lemma exec_Inl:
  "exec b a s w = Inl (x, w') \<Longrightarrow>
     DoWork_calls w' = DoWork_calls w \<and> (x = AssertionFailed \<longrightarrow> \<not> NDEBUG b)"
proof (induction a arbitrary: s w rule: action_induct)
  case (TestTrue e k)
  from TestTrue.IH [of e "snd (TestTrue e s)" w] TestTrue.prems
  show ?case by (simp add: TestTrue_def)
next
  case (TestFalse e k)
  from TestFalse.IH [of e "snd (TestFalse e s)" w] TestFalse.prems
  show ?case by (simp add: TestFalse_def)
next
  case (TestEqual_int v e k)
  show ?case
  proof (cases "TestEqual_int b v e s w")
    case (Inl y)
    with TestEqual_int.prems have "TestEqual_int b v e s w = Inl (x, w')" by simp
    with TestEqual_Inl [of b v e s w x w'] show ?thesis by blast
  next
    case (Inr y)
    obtain r s1 w1 where y: "y = (r, s1, w1)" by (cases y)
    with Inr TestEqual_int.prems have 2: "exec b (k r) s1 w1 = Inl (x, w')" by simp
    from framed_TestEqual [of b v e s w r s1 w1] Inr y have "DoWork_calls w1 = DoWork_calls w"
      by (simp add: framed_def)
    with TestEqual_int.IH [OF 2] show ?thesis by simp
  qed
next
  case (TestEqual_unsigned v e k)
  show ?case
  proof (cases "TestEqual_unsigned b v e s w")
    case (Inl y)
    with TestEqual_unsigned.prems have "TestEqual_unsigned b v e s w = Inl (x, w')" by simp
    with TestEqual_Inl [of b v e s w x w'] show ?thesis by blast
  next
    case (Inr y)
    obtain r s1 w1 where y: "y = (r, s1, w1)" by (cases y)
    with Inr TestEqual_unsigned.prems have 2: "exec b (k r) s1 w1 = Inl (x, w')" by simp
    from framed_TestEqual [of b v e s w r s1 w1] Inr y have "DoWork_calls w1 = DoWork_calls w"
      by (simp add: framed_def)
    with TestEqual_unsigned.IH [OF 2] show ?thesis by simp
  qed
next
  case (TestEqual_float v e k)
  show ?case
  proof (cases "TestEqual_float b v e s w")
    case (Inl y)
    with TestEqual_float.prems have "TestEqual_float b v e s w = Inl (x, w')" by simp
    with TestEqual_Inl [of b v e s w x w'] show ?thesis by blast
  next
    case (Inr y)
    obtain r s1 w1 where y: "y = (r, s1, w1)" by (cases y)
    with Inr TestEqual_float.prems have 2: "exec b (k r) s1 w1 = Inl (x, w')" by simp
    from framed_TestEqual [of b v e s w r s1 w1] Inr y have "DoWork_calls w1 = DoWork_calls w"
      by (simp add: framed_def)
    with TestEqual_float.IH [OF 2] show ?thesis by simp
  qed
next
  case (GetResult n k)
  then show ?case by (auto split: option.splits)
next
  case (Write_cerr t k)
  from Write_cerr.IH [of s "w\<lparr>cerr := cerr w @ t\<rparr>"] Write_cerr.prems
  show ?case by simp
qed auto

lemma RunTest_calls:
  assumes "length (tests s) \<le> INT_MAX" and "i < length (tests s)"
  shows "RunTest b (Name (tests s ! i)) s w = Inr (r, s', w') \<Longrightarrow>
           tests s' = tests s \<and> length (testStatus s') = length (testStatus s) \<and>
           DoWork_calls w' = DoWork_calls w @ [first_named s (tests s ! i)]"
    and "RunTest b (Name (tests s ! i)) s w = Inl (x, w') \<Longrightarrow>
           DoWork_calls w' = DoWork_calls w @ [first_named s (tests s ! i)] \<and>
           (x = AssertionFailed \<longrightarrow> \<not> NDEBUG b)"
proof -
  let ?i = "find_if (\<lambda>t. Name t = Name (tests s ! i)) (tests s)"
  let ?s2 = "s\<lparr>failed := False, currentRunningTest := int ?i\<rparr>"
  let ?w2 = "w\<lparr>DoWork_calls := DoWork_calls w @ [tests s ! ?i]\<rparr>"
  from assms(2) have decl: "Name (tests s ! i) \<in> set (GetTestNames s)"
    by (simp add: GetTestNames_def)
  from RunTest_eq [OF assms(1), of b "Name (tests s ! i)" w] decl
  have run: "RunTest b (Name (tests s ! i)) s w =
        (case exec b (Func (tests s ! ?i)) ?s2 ?w2 of
           Inl e \<Rightarrow> Inl e
         | Inr (u, s3, w3) \<Rightarrow>
             if currentRunningTest s3 = int ?i \<and> ?i < length (testStatus s3)
             then Inr (\<not> failed s3,
                       s3\<lparr>testStatus := (testStatus s3)[?i := if failed s3 then FAILED else PASSED]\<rparr>,
                       w3)
             else Inl (UndefinedBehaviour, w3))"
    by (simp add: Let_def)
  have fn: "first_named s (tests s ! i) = tests s ! ?i" by (simp add: first_named_def)
  {
    assume "RunTest b (Name (tests s ! i)) s w = Inr (r, s', w')"
    with run obtain u s3 w3 where x: "exec b (Func (tests s ! ?i)) ?s2 ?w2 = Inr (u, s3, w3)"
      and res: "s' = s3\<lparr>testStatus := (testStatus s3)[?i := if failed s3 then FAILED else PASSED]\<rparr>"
        "w' = w3"
      by (auto split: sum.splits if_splits)
    from exec_framed [OF x] have "tests s3 = tests s" "testStatus s3 = testStatus s"
      "DoWork_calls w3 = DoWork_calls w @ [tests s ! ?i]"
      by (simp_all add: framed_def)
    with res fn show "tests s' = tests s \<and> length (testStatus s') = length (testStatus s) \<and>
           DoWork_calls w' = DoWork_calls w @ [first_named s (tests s ! i)]"
      by simp
  }
  {
    assume ab: "RunTest b (Name (tests s ! i)) s w = Inl (x, w')"
    show "DoWork_calls w' = DoWork_calls w @ [first_named s (tests s ! i)] \<and>
           (x = AssertionFailed \<longrightarrow> \<not> NDEBUG b)"
    proof (cases "exec b (Func (tests s ! ?i)) ?s2 ?w2")
      case (Inl y)
      with run ab have "exec b (Func (tests s ! ?i)) ?s2 ?w2 = Inl (x, w')" by simp
      from exec_Inl [OF this] fn show ?thesis by simp
    next
      case (Inr y)
      obtain u s3 w3 where y: "y = (u, s3, w3)" by (cases y)
      with Inr run ab have "x = UndefinedBehaviour" "w' = w3"
        by (auto split: if_splits)
      moreover from exec_framed [of b "Func (tests s ! ?i)" ?s2 ?w2 u s3 w3] Inr y
      have "DoWork_calls w3 = DoWork_calls w @ [tests s ! ?i]"
        by (simp add: framed_def)
      ultimately show ?thesis using fn by simp
    qed
  }
qed


lemma RunTest_step:
  assumes "distinct (GetTestNames s)" and "length (tests s) \<le> INT_MAX" and "i < length (tests s)"
    and "RunTest b (Name (tests s ! i)) s w = Inr (r, s', w')"
  shows "tests s' = tests s \<and> i < length (testStatus s) \<and>
         testStatus s' = (testStatus s)[i := if r then PASSED else FAILED] \<and>
         DoWork_calls w' = DoWork_calls w @ [tests s ! i]"
proof -
  let ?s2 = "s\<lparr>failed := False, currentRunningTest := int i\<rparr>"
  let ?w2 = "w\<lparr>DoWork_calls := DoWork_calls w @ [tests s ! i]\<rparr>"
  from assms(1,3) have pos: "find_if (\<lambda>t. Name t = Name (tests s ! i)) (tests s) = i"
    unfolding GetTestNames_def by (rule find_if_distinct)
  from assms(3) have decl: "Name (tests s ! i) \<in> set (GetTestNames s)"
    by (simp add: GetTestNames_def)
  from assms(4) RunTest_eq [OF assms(2), of b "Name (tests s ! i)" w] pos decl
  have run: "(case exec b (Func (tests s ! i)) ?s2 ?w2 of
           Inl e \<Rightarrow> Inl e
         | Inr (u, s3, w3) \<Rightarrow>
             if currentRunningTest s3 = int i \<and> i < length (testStatus s3)
             then Inr (\<not> failed s3,
                       s3\<lparr>testStatus := (testStatus s3)[i := if failed s3 then FAILED else PASSED]\<rparr>,
                       w3)
             else Inl (UndefinedBehaviour, w3)) = Inr (r, s', w')"
    by (simp add: Let_def)
  then obtain u s3 w3 where x: "exec b (Func (tests s ! i)) ?s2 ?w2 = Inr (u, s3, w3)"
    and ok: "currentRunningTest s3 = int i \<and> i < length (testStatus s3)"
    and res: "r = (\<not> failed s3)"
      "s' = s3\<lparr>testStatus := (testStatus s3)[i := if failed s3 then FAILED else PASSED]\<rparr>"
      "w' = w3"
    by (auto split: sum.splits if_splits)
  from exec_framed [OF x] have "tests s3 = tests s" "testStatus s3 = testStatus s"
    "DoWork_calls w3 = DoWork_calls w @ [tests s ! i]"
    by (simp_all add: framed_def)
  with ok res show ?thesis by auto
qed

lemma count_all_iff: "length (filter P xs) = length xs \<longleftrightarrow> (\<forall>x\<in>set xs. P x)"
proof (induction xs)
  case Nil
  then show ?case by simp
next
  case (Cons x xs)
  have "length (filter P xs) \<noteq> Suc (length xs)"
    using length_filter_le [of P xs] by arith
  with Cons show ?case by auto
qed

lemma RunAll_loop_spec:
  assumes "distinct (GetTestNames s)" and "length (testStatus s) = length (tests s)"
    and "length (tests s) \<le> INT_MAX" and "i \<le> length (tests s)"
    and "RunAll_loop b i passed s w = Inr (r, s', w')"
  shows "tests s' = tests s \<and> length (testStatus s') = length (tests s) \<and>
         take i (testStatus s') = take i (testStatus s) \<and>
         DoWork_calls w' = DoWork_calls w @ drop i (tests s) \<and>
         set (drop i (testStatus s')) \<subseteq> {PASSED, FAILED} \<and>
         r = (unat (passed + of_nat (length (filter (\<lambda>x. x = PASSED) (drop i (testStatus s')))))
              = length (tests s))"
  using assms
proof (induction "length (tests s) - i" arbitrary: i passed s w)
  case 0
  then have "\<not> i < length (tests s)" by simp
  then have "RunAll_loop b i passed s w = Inr (unat passed = length (tests s), s, w)"
    by (simp add: RunAll_loop.simps [of b i passed s w])
  with 0 show ?case by auto
next
  case (Suc d)
  let ?s0 = "ResetFlags s"
  from Suc(2) have lt: "i < length (tests s)" by simp
  have t0: "tests ?s0 = tests s" "testStatus ?s0 = testStatus s" "GetTestNames ?s0 = GetTestNames s"
    by (simp_all add: ResetFlags_def GetTestNames_def)
  from lt Suc.prems(3) have ne: "i \<noteq> INT_MAX" by simp
  from Suc.prems(5) lt ne obtain r1 s1 w1
    where run: "RunTest b (Name (tests ?s0 ! i)) ?s0 w = Inr (r1, s1, w1)"
      and rest: "RunAll_loop b (i + 1) (passed + (if r1 then 1 else 0)) s1 w1 = Inr (r, s', w')"
    by (auto simp: RunAll_loop.simps [of b i passed s w] split: sum.splits)
  from Suc.prems(1,3) lt t0 have pre: "distinct (GetTestNames ?s0)" "length (tests ?s0) \<le> INT_MAX"
    "i < length (tests ?s0)"
    by simp_all
  from RunTest_step [OF pre run] t0
  have s1: "tests s1 = tests s" "testStatus s1 = (testStatus s)[i := if r1 then PASSED else FAILED]"
    "DoWork_calls w1 = DoWork_calls w @ [tests s ! i]"
    by simp_all
  from s1(1) Suc.prems(1) have d1: "distinct (GetTestNames s1)" by (simp add: GetTestNames_def)
  from s1 Suc.prems(2) have l1: "length (testStatus s1) = length (tests s1)" by simp
  from s1 Suc.prems(3) have m1: "length (tests s1) \<le> INT_MAX" by simp
  from s1 lt have i1: "i + 1 \<le> length (tests s1)" by simp
  from Suc(2) s1 have dd: "d = length (tests s1) - (i + 1)" by simp
  from Suc(1) [OF dd d1 l1 m1 i1 rest] s1(1)
  have IH: "tests s' = tests s" "length (testStatus s') = length (tests s)"
    "take (Suc i) (testStatus s') = take (Suc i) (testStatus s1)"
    "DoWork_calls w' = DoWork_calls w1 @ drop (Suc i) (tests s)"
    "set (drop (Suc i) (testStatus s')) \<subseteq> {PASSED, FAILED}"
    "r = (unat (passed + (if r1 then 1 else 0) +
             of_nat (length (filter (\<lambda>x. x = PASSED) (drop (Suc i) (testStatus s')))))
          = length (tests s))"
    by simp_all
  from lt Suc.prems(2) IH(2) have li: "i < length (testStatus s')" "i < length (testStatus s)"
    by simp_all
  have "testStatus s' ! i = take (Suc i) (testStatus s') ! i" by simp
  also have "\<dots> = take (Suc i) (testStatus s1) ! i" by (simp only: IH(3))
  also have "\<dots> = testStatus s1 ! i" by simp
  also from li(2) s1(2) have "\<dots> = (if r1 then PASSED else FAILED)" by simp
  finally have nth_i: "testStatus s' ! i = (if r1 then PASSED else FAILED)" .
  have "take i (testStatus s') = take i (take (Suc i) (testStatus s'))" by (simp add: min_def)
  also have "\<dots> = take i (take (Suc i) (testStatus s1))" by (simp only: IH(3))
  also have "\<dots> = take i (testStatus s1)" by (simp add: min_def)
  also from s1(2) have "\<dots> = take i (testStatus s)" by simp
  finally have tk: "take i (testStatus s') = take i (testStatus s)" .
  from li(1) have dr: "drop i (testStatus s') = testStatus s' ! i # drop (Suc i) (testStatus s')"
    by (simp add: Cons_nth_drop_Suc)
  from lt have drt: "drop i (tests s) = tests s ! i # drop (Suc i) (tests s)"
    by (simp add: Cons_nth_drop_Suc)
  from IH(4) s1(3) drt have calls: "DoWork_calls w' = DoWork_calls w @ drop i (tests s)"
    by simp
  from dr nth_i IH(5) have sub: "set (drop i (testStatus s')) \<subseteq> {PASSED, FAILED}"
    by auto
  from dr nth_i IH(6)
  have cnt: "r = (unat (passed + of_nat (length (filter (\<lambda>x. x = PASSED) (drop i (testStatus s')))))
              = length (tests s))"
    by (simp add: add.assoc)
  from IH(1,2) tk calls sub cnt show ?case by simp
qed

lemma word_count_exact:
  "c \<le> n \<Longrightarrow> n \<le> INT_MAX \<Longrightarrow> (unat (0 + of_nat c :: 32 word) = n) = (c = n)"
proof -
  assume "c \<le> n" "n \<le> INT_MAX"
  then have "c < 2 ^ 32" by (simp add: INT_MAX_def)
  then have "unat (of_nat c :: 32 word) = c"
    by (simp add: unat_of_nat take_bit_nat_eq_self)
  then show ?thesis by simp
qed




section \<open>Failed assertions\<close>

lemma note_failure_simps [simp]:
  "tests (note_failure ok s) = tests s"
  "testStatus (note_failure ok s) = testStatus s"
  "logstream (note_failure ok s) = logstream s"
  "currentRunningTest (note_failure ok s) = currentRunningTest s"
  "failed (note_failure ok s) = (failed s \<or> \<not> ok)"
  "note_failure ok2 (note_failure ok s) = note_failure (ok \<and> ok2) s"
  "GetTestNames (note_failure ok s) = GetTestNames s"
  "GetCurrentRunningTest (note_failure ok s) = GetCurrentRunningTest s"
  by (auto simp: note_failure_def GetTestNames_def GetCurrentRunningTest_def)

lemma TestTrue_note: "TestTrue e s = (e, note_failure e s)"
  and TestFalse_note: "TestFalse e s = (e, note_failure (\<not> e) s)"
  by (simp_all add: TestTrue_def TestFalse_def note_failure_def)

lemma TestEqual_mismatch_total:
  assumes "NDEBUG b" and "at_index (GetTestNames s) (GetCurrentRunningTest s) \<noteq> None"
  shows "\<exists>w1. TestEqual_mismatch b x y s w = Inr (False, note_failure False s, w1)"
  using assms
  by (auto simp: TestEqual_mismatch_def assert_aborts_def note_failure_def Let_def
      split: option.splits)

lemma TestEqual_total:
  assumes "at_index (GetTestNames s) (GetCurrentRunningTest s) \<noteq> None"
  shows "NDEBUG b \<or> val = expected \<Longrightarrow>
           \<exists>w1. TestEqual_int b val expected s w =
                  Inr (val = expected, note_failure (val = expected) s, w1)"
    and "NDEBUG b \<or> val = expected \<Longrightarrow>
           \<exists>w1. TestEqual_unsigned b val expected s w =
                  Inr (val = expected, note_failure (val = expected) s, w1)"
    and "NDEBUG b \<or> floatsAlmostSame fv fe FLT_EPSILON \<Longrightarrow>
           \<exists>w1. TestEqual_float b fv fe s w =
                  Inr (floatsAlmostSame fv fe FLT_EPSILON,
                       note_failure (floatsAlmostSame fv fe FLT_EPSILON) s, w1)"
  using TestEqual_mismatch_total [OF _ assms, of b _ _ w]
  by (auto simp: TestEqual_int_def TestEqual_unsigned_def TestEqual_float_def note_failure_def)

lemma TestEqual_mismatch_aborts:
  assumes "\<not> NDEBUG b" and "at_index (GetTestNames s) (GetCurrentRunningTest s) \<noteq> None"
  shows "\<exists>w1. TestEqual_mismatch b x y s w = Inl (AssertionFailed, w1)"
  using assms
  by (auto simp: TestEqual_mismatch_def assert_aborts_def Let_def split: option.splits)

lemma TestEqual_aborts:
  assumes "\<not> NDEBUG b" and "at_index (GetTestNames s) (GetCurrentRunningTest s) \<noteq> None"
  shows "val \<noteq> expected \<Longrightarrow> \<exists>w1. TestEqual_int b val expected s w = Inl (AssertionFailed, w1)"
    and "val \<noteq> expected \<Longrightarrow> \<exists>w1. TestEqual_unsigned b val expected s w = Inl (AssertionFailed, w1)"
    and "\<not> floatsAlmostSame fv fe FLT_EPSILON \<Longrightarrow>
           \<exists>w1. TestEqual_float b fv fe s w = Inl (AssertionFailed, w1)"
  using TestEqual_mismatch_aborts [OF assms, of _ _ w]
  by (simp_all add: TestEqual_int_def TestEqual_unsigned_def TestEqual_float_def)

text \<open>
  An action with a verdict returns, with \<^verbatim>\<open>_failed\<close> set exactly when the verdict is false,
  unless a \<^verbatim>\<open>TestEqual\<close> of it finds a mismatch in a build with assertions.
\<close>

lemma exec_assertions:
  assumes "verdict ns i a = Some v" and "NDEBUG b \<or> \<not> TestEqual_fails ns i a"
    and "GetTestNames s = ns" and "GetCurrentRunningTest s = i" and "at_index ns i \<noteq> None"
  shows "\<exists>s' w'. exec b a s w = Inr ((), s', w') \<and> failed s' = (failed s \<or> \<not> v) \<and>
           currentRunningTest s' = currentRunningTest s"
  using assms
proof (induction a arbitrary: v s w rule: action_induct)
  case Return
  then show ?case by auto
next
  case (TestTrue e k)
  from TestTrue.prems(1) obtain vk where vk: "verdict ns i (k e) = Some vk" "v = (e \<and> vk)"
    by auto
  from TestTrue.prems(2) have "NDEBUG b \<or> \<not> TestEqual_fails ns i (k e)" by simp
  from TestTrue.IH [OF vk(1) this, of "note_failure e s" w] TestTrue.prems(3,4,5)
  obtain s' w' where "exec b (k e) (note_failure e s) w = Inr ((), s', w')"
    "failed s' = (failed (note_failure e s) \<or> \<not> vk)"
    "currentRunningTest s' = currentRunningTest (note_failure e s)"
    by auto
  with vk(2) show ?case by (auto simp: TestTrue_note)
next
  case (TestFalse e k)
  from TestFalse.prems(1) obtain vk where vk: "verdict ns i (k e) = Some vk" "v = (\<not> e \<and> vk)"
    by auto
  from TestFalse.prems(2) have "NDEBUG b \<or> \<not> TestEqual_fails ns i (k e)" by simp
  from TestFalse.IH [OF vk(1) this, of "note_failure (\<not> e) s" w] TestFalse.prems(3,4,5)
  obtain s' w' where "exec b (k e) (note_failure (\<not> e) s) w = Inr ((), s', w')"
    "failed s' = (failed (note_failure (\<not> e) s) \<or> \<not> vk)"
    "currentRunningTest s' = currentRunningTest (note_failure (\<not> e) s)"
    by auto
  with vk(2) show ?case by (auto simp: TestFalse_note)
next
  case (TestEqual_int val e k)
  let ?r = "val = e"
  from TestEqual_int.prems(1) obtain vk where vk: "verdict ns i (k ?r) = Some vk" "v = (?r \<and> vk)"
    by auto
  from TestEqual_int.prems(2) have c: "NDEBUG b \<or> ?r" "NDEBUG b \<or> \<not> TestEqual_fails ns i (k ?r)"
    by auto
  from TestEqual_int.prems(3,4,5) have idx: "at_index (GetTestNames s) (GetCurrentRunningTest s) \<noteq> None"
    by simp
  from TestEqual_total(1) [OF idx c(1), of w] obtain w1
    where 1: "TestEqual_int b val e s w = Inr (?r, note_failure ?r s, w1)"
    by blast
  from TestEqual_int.IH [OF vk(1) c(2), of "note_failure ?r s" w1] TestEqual_int.prems(3,4,5)
  obtain s' w' where "exec b (k ?r) (note_failure ?r s) w1 = Inr ((), s', w')"
    "failed s' = (failed (note_failure ?r s) \<or> \<not> vk)"
    "currentRunningTest s' = currentRunningTest (note_failure ?r s)"
    by auto
  with 1 vk(2) show ?case by auto
next
  case (TestEqual_unsigned val e k)
  let ?r = "val = e"
  from TestEqual_unsigned.prems(1) obtain vk where vk: "verdict ns i (k ?r) = Some vk" "v = (?r \<and> vk)"
    by auto
  from TestEqual_unsigned.prems(2) have c: "NDEBUG b \<or> ?r" "NDEBUG b \<or> \<not> TestEqual_fails ns i (k ?r)"
    by auto
  from TestEqual_unsigned.prems(3,4,5) have idx: "at_index (GetTestNames s) (GetCurrentRunningTest s) \<noteq> None"
    by simp
  from TestEqual_total(2) [OF idx c(1), of w] obtain w1
    where 1: "TestEqual_unsigned b val e s w = Inr (?r, note_failure ?r s, w1)"
    by blast
  from TestEqual_unsigned.IH [OF vk(1) c(2), of "note_failure ?r s" w1] TestEqual_unsigned.prems(3,4,5)
  obtain s' w' where "exec b (k ?r) (note_failure ?r s) w1 = Inr ((), s', w')"
    "failed s' = (failed (note_failure ?r s) \<or> \<not> vk)"
    "currentRunningTest s' = currentRunningTest (note_failure ?r s)"
    by auto
  with 1 vk(2) show ?case by auto
next
  case (TestEqual_float val e k)
  let ?r = "floatsAlmostSame val e FLT_EPSILON"
  from TestEqual_float.prems(1) obtain vk where vk: "verdict ns i (k ?r) = Some vk" "v = (?r \<and> vk)"
    by auto
  from TestEqual_float.prems(2) have c: "NDEBUG b \<or> ?r" "NDEBUG b \<or> \<not> TestEqual_fails ns i (k ?r)"
    by auto
  from TestEqual_float.prems(3,4,5) have idx: "at_index (GetTestNames s) (GetCurrentRunningTest s) \<noteq> None"
    by simp
  from TestEqual_total(3) [OF idx c(1), of w] obtain w1
    where 1: "TestEqual_float b val e s w = Inr (?r, note_failure ?r s, w1)"
    by blast
  from TestEqual_float.IH [OF vk(1) c(2), of "note_failure ?r s" w1] TestEqual_float.prems(3,4,5)
  obtain s' w' where "exec b (k ?r) (note_failure ?r s) w1 = Inr ((), s', w')"
    "failed s' = (failed (note_failure ?r s) \<or> \<not> vk)"
    "currentRunningTest s' = currentRunningTest (note_failure ?r s)"
    by auto
  with 1 vk(2) show ?case by auto
next
  case (GetTestNames k)
  from GetTestNames.IH [of ns v s w] GetTestNames.prems show ?case by simp
next
  case (GetCurrentRunningTest k)
  from GetCurrentRunningTest.IH [of i v s w] GetCurrentRunningTest.prems show ?case by simp
next
  case (ResetLog k)
  from ResetLog.IH [of v "ResetLog s" w] ResetLog.prems show ?case
    by (simp add: ResetLog_def GetTestNames_def GetCurrentRunningTest_def)
next
  case (OutLog f k)
  from OutLog.IH [of v "s\<lparr>logstream := f (logstream s)\<rparr>" w] OutLog.prems show ?case
    by (simp add: GetTestNames_def GetCurrentRunningTest_def)
next
  case (Write_cerr t k)
  from Write_cerr.IH [of v s "w\<lparr>cerr := cerr w @ t\<rparr>"] Write_cerr.prems show ?case
    by simp
qed simp_all

text \<open>
  Compiled with assertions, an action with a verdict one of whose \<^verbatim>\<open>TestEqual\<close> calls finds
  a mismatch ends the process at \<^verbatim>\<open>assert(false)\<close>.
\<close>

lemma exec_TestEqual_aborts:
  assumes "verdict ns i a \<noteq> None" and "\<not> NDEBUG b" and "TestEqual_fails ns i a"
    and "GetTestNames s = ns" and "GetCurrentRunningTest s = i" and "at_index ns i \<noteq> None"
  shows "\<exists>w'. exec b a s w = Inl (AssertionFailed, w')"
  using assms(1,3-)
proof (induction a arbitrary: s w rule: action_induct)
  case (TestTrue e k)
  from TestTrue.IH [of e "note_failure e s" w] TestTrue.prems show ?case
    by (auto simp: TestTrue_note)
next
  case (TestFalse e k)
  from TestFalse.IH [of e "note_failure (\<not> e) s" w] TestFalse.prems show ?case
    by (auto simp: TestFalse_note)
next
  case (TestEqual_int val e k)
  from TestEqual_int.prems(3,4,5) have idx: "at_index (GetTestNames s) (GetCurrentRunningTest s) \<noteq> None"
    by simp
  show ?case
  proof (cases "val = e")
    case True
    with TestEqual_int.IH [of True s w] TestEqual_int.prems show ?thesis
      by (auto simp: TestEqual_int_def)
  next
    case False
    from TestEqual_aborts(1) [OF assms(2) idx False, of w] show ?thesis by auto
  qed
next
  case (TestEqual_unsigned val e k)
  from TestEqual_unsigned.prems(3,4,5) have idx: "at_index (GetTestNames s) (GetCurrentRunningTest s) \<noteq> None"
    by simp
  show ?case
  proof (cases "val = e")
    case True
    with TestEqual_unsigned.IH [of True s w] TestEqual_unsigned.prems show ?thesis
      by (auto simp: TestEqual_unsigned_def)
  next
    case False
    from TestEqual_aborts(2) [OF assms(2) idx False, of w] show ?thesis by auto
  qed
next
  case (TestEqual_float val e k)
  from TestEqual_float.prems(3,4,5) have idx: "at_index (GetTestNames s) (GetCurrentRunningTest s) \<noteq> None"
    by simp
  show ?case
  proof (cases "floatsAlmostSame val e FLT_EPSILON")
    case True
    with TestEqual_float.IH [of True s w] TestEqual_float.prems show ?thesis
      by (auto simp: TestEqual_float_def)
  next
    case False
    from TestEqual_aborts(3) [OF assms(2) idx False, of w] show ?thesis by auto
  qed
next
  case (GetTestNames k)
  from GetTestNames.IH [of ns s w] GetTestNames.prems show ?case by simp
next
  case (GetCurrentRunningTest k)
  from GetCurrentRunningTest.IH [of i s w] GetCurrentRunningTest.prems show ?case by simp
next
  case (ResetLog k)
  from ResetLog.IH [of "ResetLog s" w] ResetLog.prems show ?case
    by (simp add: ResetLog_def GetTestNames_def GetCurrentRunningTest_def)
next
  case (OutLog f k)
  from OutLog.IH [of "s\<lparr>logstream := f (logstream s)\<rparr>" w] OutLog.prems show ?case
    by (simp add: GetTestNames_def GetCurrentRunningTest_def)
next
  case (Write_cerr t k)
  from Write_cerr.IH [of s "w\<lparr>cerr := cerr w @ t\<rparr>"] Write_cerr.prems show ?case
    by simp
qed simp_all

lemma case_verdict_tests:
  "tests s1 = tests s \<Longrightarrow> case_verdict s1 = case_verdict s"
  "tests s1 = tests s \<Longrightarrow> case_TestEqual_fails s1 = case_TestEqual_fails s"
  by (simp_all add: case_verdict_def case_TestEqual_fails_def GetTestNames_def fun_eq_iff)

lemma RunTest_assertions:
  assumes "distinct (GetTestNames s)" and "length (testStatus s) = length (tests s)"
    and "length (tests s) \<le> INT_MAX" and "i < length (tests s)"
    and "case_verdict s i = Some v"
    and "NDEBUG b \<or> \<not> case_TestEqual_fails s i"
  shows "\<exists>s' w'. RunTest b (Name (tests s ! i)) s w = Inr (v, s', w')"
proof -
  let ?s2 = "s\<lparr>failed := False, currentRunningTest := int i\<rparr>"
  let ?w2 = "w\<lparr>DoWork_calls := DoWork_calls w @ [tests s ! i]\<rparr>"
  from assms(1,4) have pos: "find_if (\<lambda>t. Name t = Name (tests s ! i)) (tests s) = i"
    unfolding GetTestNames_def by (rule find_if_distinct)
  from assms(4) have decl: "Name (tests s ! i) \<in> set (GetTestNames s)"
    by (simp add: GetTestNames_def)
  have ns: "GetTestNames ?s2 = GetTestNames s" "GetCurrentRunningTest ?s2 = int i"
    by (simp_all add: GetTestNames_def GetCurrentRunningTest_def)
  from assms(4) have idx: "at_index (GetTestNames s) (int i) \<noteq> None"
    by (simp add: at_index_def GetTestNames_def)
  from assms(5,6) have vd: "verdict (GetTestNames s) (int i) (Func (tests s ! i)) = Some v"
    "NDEBUG b \<or> \<not> TestEqual_fails (GetTestNames s) (int i) (Func (tests s ! i))"
    by (simp_all add: case_verdict_def case_TestEqual_fails_def)
  from exec_assertions [OF vd ns idx, of ?w2] obtain s3 w3
    where x: "exec b (Func (tests s ! i)) ?s2 ?w2 = Inr ((), s3, w3)"
      and f: "failed s3 = (\<not> v)" and c: "currentRunningTest s3 = int i"
    by auto
  from exec_framed [OF x] have "testStatus s3 = testStatus s" by (simp add: framed_def)
  with assms(2,4) have "i < length (testStatus s3)" by simp
  with RunTest_eq [OF assms(3), of b "Name (tests s ! i)" w] pos decl x f c
  show ?thesis by (simp add: Let_def)
qed

lemma RunTest_TestEqual_aborts:
  assumes "distinct (GetTestNames s)" and "length (tests s) \<le> INT_MAX" and "i < length (tests s)"
    and "case_verdict s i \<noteq> None" and "\<not> NDEBUG b" and "case_TestEqual_fails s i"
  shows "\<exists>w'. RunTest b (Name (tests s ! i)) s w = Inl (AssertionFailed, w')"
proof -
  let ?s2 = "s\<lparr>failed := False, currentRunningTest := int i\<rparr>"
  let ?w2 = "w\<lparr>DoWork_calls := DoWork_calls w @ [tests s ! i]\<rparr>"
  from assms(1,3) have pos: "find_if (\<lambda>t. Name t = Name (tests s ! i)) (tests s) = i"
    unfolding GetTestNames_def by (rule find_if_distinct)
  from assms(3) have decl: "Name (tests s ! i) \<in> set (GetTestNames s)"
    by (simp add: GetTestNames_def)
  have ns: "GetTestNames ?s2 = GetTestNames s" "GetCurrentRunningTest ?s2 = int i"
    by (simp_all add: GetTestNames_def GetCurrentRunningTest_def)
  from assms(3) have idx: "at_index (GetTestNames s) (int i) \<noteq> None"
    by (simp add: at_index_def GetTestNames_def)
  from assms(4,6) have vd: "verdict (GetTestNames s) (int i) (Func (tests s ! i)) \<noteq> None"
    "TestEqual_fails (GetTestNames s) (int i) (Func (tests s ! i))"
    by (simp_all add: case_verdict_def case_TestEqual_fails_def)
  from exec_TestEqual_aborts [OF vd(1) assms(5) vd(2) ns idx, of ?w2] obtain w3
    where x: "exec b (Func (tests s ! i)) ?s2 ?w2 = Inl (AssertionFailed, w3)"
    by auto
  with RunTest_eq [OF assms(2), of b "Name (tests s ! i)" w] pos decl
  show ?thesis by (simp add: Let_def)
qed

text \<open>
  Compiled with \<^verbatim>\<open>NDEBUG\<close>, no run ends at an assertion, whatever the suite and its actions.
\<close>

lemma RunTest_never_asserts:
  assumes "RunTest b name s w = Inl (x, w')" and "NDEBUG b"
  shows "x \<noteq> AssertionFailed"
proof -
  let ?s1 = "ResetFlags s"
  let ?found = "find_if (\<lambda>t. Name t = name) (tests ?s1)"
  let ?s2 = "?s1\<lparr>currentRunningTest := static_cast_int ?found\<rparr>"
  show ?thesis
  proof (cases "?found = length (tests ?s1)")
    case True
    with assms show ?thesis by (auto simp: RunTest_def assert_aborts_def Let_def)
  next
    case False
    show ?thesis
    proof (cases "DoWork b (tests ?s2 ! ?found) ?s2 w")
      case (Inl y)
      with False assms(1) have "DoWork b (tests ?s2 ! ?found) ?s2 w = Inl (x, w')"
        by (simp add: RunTest_def Let_def)
      from exec_Inl [OF this [unfolded DoWork_def]] assms(2) show ?thesis by blast
    next
      case (Inr y)
      obtain u s3 w3 where "y = (u, s3, w3)" by (cases y)
      with Inr False assms(1) show ?thesis
        by (auto simp: RunTest_def Let_def split: option.splits)
    qed
  qed
qed

lemma RunAll_loop_never_asserts:
  assumes "RunAll_loop b i passed s w = Inl (x, w')" and "NDEBUG b"
  shows "x \<noteq> AssertionFailed"
  using assms
proof (induction b i passed s w rule: RunAll_loop.induct)
  case (1 b i passed s w)
  show ?case
  proof (cases "i < length (tests s)")
    case False
    with 1(2) show ?thesis by (simp add: RunAll_loop.simps [of b i passed s w])
  next
    case lt: True
    show ?thesis
    proof (cases "RunTest b (Name (tests (ResetFlags s) ! i)) (ResetFlags s) w")
      case (Inl y)
      with lt 1(2) have "RunTest b (Name (tests (ResetFlags s) ! i)) (ResetFlags s) w = Inl (x, w')"
        by (simp add: RunAll_loop.simps [of b i passed s w])
      from RunTest_never_asserts [OF this 1(3)] show ?thesis .
    next
      case (Inr y)
      obtain r s1 w1 where y: "y = (r, s1, w1)" by (cases y)
      show ?thesis
      proof (cases "i = INT_MAX")
        case True
        have "RunAll_loop b i passed s w = Inl (UndefinedBehaviour, w1)"
          using Inr y lt True by (subst RunAll_loop.simps) simp
        with 1(2) show ?thesis by simp
      next
        case False
        with Inr y lt 1(2)
        have "RunAll_loop b (i + 1) (passed + (if r then 1 else 0)) s1 w1 = Inl (x, w')"
          by (simp add: RunAll_loop.simps [of b i passed s w])
        from 1(1) [OF lt Inr [unfolded y] refl refl False this 1(3)] show ?thesis .
      qed
    qed
  qed
qed

lemma RunAll_loop_assertions:
  assumes "distinct (GetTestNames s)" and "length (testStatus s) = length (tests s)"
    and "length (tests s) \<le> INT_MAX" and "i \<le> length (tests s)"
    and "\<forall>k<length (tests s). case_verdict s k \<noteq> None"
    and "NDEBUG b \<or> (\<forall>k<length (tests s). \<not> case_TestEqual_fails s k)"
  shows "\<exists>r s' w'. RunAll_loop b i passed s w = Inr (r, s', w') \<and>
           testStatus s' = take i (testStatus s) @
             map (\<lambda>k. if case_verdict s k = Some True then PASSED else FAILED)
               [i..<length (tests s)]"
  using assms
proof (induction "length (tests s) - i" arbitrary: i passed s w)
  case 0
  then have "\<not> i < length (tests s)" by simp
  then have "RunAll_loop b i passed s w = Inr (unat passed = length (tests s), s, w)"
    by (simp add: RunAll_loop.simps [of b i passed s w])
  with 0 show ?case by simp
next
  case (Suc d)
  let ?s0 = "ResetFlags s"
  let ?f = "\<lambda>k. if case_verdict s k = Some True then PASSED else FAILED"
  from Suc(2) have lt: "i < length (tests s)" by simp
  have t0: "tests ?s0 = tests s" "testStatus ?s0 = testStatus s" "GetTestNames ?s0 = GetTestNames s"
    by (simp_all add: ResetFlags_def GetTestNames_def)
  have cv0: "case_verdict ?s0 = case_verdict s" "case_TestEqual_fails ?s0 = case_TestEqual_fails s"
    by (rule case_verdict_tests, rule t0(1))+
  from lt Suc.prems(3) have ne: "i \<noteq> INT_MAX" by simp
  from lt Suc.prems(5) obtain v where v: "case_verdict s i = Some v" by auto
  from lt Suc.prems(6) have nf: "NDEBUG b \<or> \<not> case_TestEqual_fails s i" by auto
  from Suc.prems(1,2,3) lt t0 have pre: "distinct (GetTestNames ?s0)"
    "length (testStatus ?s0) = length (tests ?s0)" "length (tests ?s0) \<le> INT_MAX"
    "i < length (tests ?s0)"
    by simp_all
  from v nf cv0 have pre2: "case_verdict ?s0 i = Some v"
    "NDEBUG b \<or> \<not> case_TestEqual_fails ?s0 i"
    by simp_all
  from RunTest_assertions [OF pre pre2, of w] obtain s1 w1
    where run: "RunTest b (Name (tests ?s0 ! i)) ?s0 w = Inr (v, s1, w1)"
    by auto
  from RunTest_step [OF pre(1,3,4) run] t0
  have s1: "tests s1 = tests s" "testStatus s1 = (testStatus s)[i := if v then PASSED else FAILED]"
    by simp_all
  from s1(1) have cv1: "case_verdict s1 = case_verdict s"
    "case_TestEqual_fails s1 = case_TestEqual_fails s"
    by (rule case_verdict_tests)+
  from s1(1) Suc.prems(1) have d1: "distinct (GetTestNames s1)" by (simp add: GetTestNames_def)
  from s1 Suc.prems(2) have l1: "length (testStatus s1) = length (tests s1)" by simp
  from s1 Suc.prems(3) have m1: "length (tests s1) \<le> INT_MAX" by simp
  from s1 lt have i1: "i + 1 \<le> length (tests s1)" by simp
  from Suc(2) s1 have dd: "d = length (tests s1) - (i + 1)" by simp
  from Suc.prems(5,6) s1(1) cv1 have a1: "\<forall>k<length (tests s1). case_verdict s1 k \<noteq> None"
    "NDEBUG b \<or> (\<forall>k<length (tests s1). \<not> case_TestEqual_fails s1 k)"
    by simp_all
  from Suc(1) [OF dd d1 l1 m1 i1 a1, of "passed + (if v then 1 else 0)" w1] obtain r s' w'
    where rest: "RunAll_loop b (i + 1) (passed + (if v then 1 else 0)) s1 w1 = Inr (r, s', w')"
      and st': "testStatus s' = take (i + 1) (testStatus s1) @
          map (\<lambda>k. if case_verdict s1 k = Some True then PASSED else FAILED)
            [i + 1..<length (tests s1)]"
    by blast
  from lt ne run rest have whole: "RunAll_loop b i passed s w = Inr (r, s', w')"
    by (simp add: RunAll_loop.simps [of b i passed s w])
  from lt Suc.prems(2) have li: "i < length (testStatus s)" by simp
  from v have fv: "?f i = (if v then PASSED else FAILED)" by simp
  from li s1(2) have "take (i + 1) (testStatus s1) = take i (testStatus s) @ [if v then PASSED else FAILED]"
    by (simp add: take_Suc_conv_app_nth)
  moreover from lt have "[i..<length (tests s)] = i # [i + 1..<length (tests s)]"
    by (simp add: upt_conv_Cons)
  ultimately have "testStatus s' = take i (testStatus s) @ map ?f [i..<length (tests s)]"
    using st' s1(1) cv1 fv by simp
  with whole show ?case by simp
qed

lemma RunAll_loop_aborts:
  assumes "distinct (GetTestNames s)" and "length (testStatus s) = length (tests s)"
    and "length (tests s) \<le> INT_MAX" and "i \<le> j" and "j < length (tests s)"
    and "\<forall>k<length (tests s). case_verdict s k \<noteq> None"
    and "\<not> NDEBUG b" and "case_TestEqual_fails s j"
    and "\<forall>k<j. i \<le> k \<longrightarrow> \<not> case_TestEqual_fails s k"
  shows "\<exists>w'. RunAll_loop b i passed s w = Inl (AssertionFailed, w') \<and>
           DoWork_calls w' = DoWork_calls w @ take (Suc j - i) (drop i (tests s))"
  using assms(1-6,8,9)
proof (induction "j - i" arbitrary: i passed s w)
  case 0
  let ?s0 = "ResetFlags s"
  from 0 have ij: "i = j" by simp
  with 0 have lt: "i < length (tests s)" by simp
  have t0: "tests ?s0 = tests s" "GetTestNames ?s0 = GetTestNames s"
    by (simp_all add: ResetFlags_def GetTestNames_def)
  have cv0: "case_verdict ?s0 = case_verdict s" "case_TestEqual_fails ?s0 = case_TestEqual_fails s"
    by (rule case_verdict_tests, rule t0(1))+
  from 0 lt ij t0 cv0 have pre: "distinct (GetTestNames ?s0)" "length (tests ?s0) \<le> INT_MAX"
    "i < length (tests ?s0)" "case_verdict ?s0 i \<noteq> None" "case_TestEqual_fails ?s0 i"
    by simp_all
  from RunTest_TestEqual_aborts [OF pre(1-4) assms(7) pre(5), of w] obtain w'
    where run: "RunTest b (Name (tests ?s0 ! i)) ?s0 w = Inl (AssertionFailed, w')"
    by blast
  from RunTest_calls(2) [OF pre(2,3) run] t0
  have "DoWork_calls w' = DoWork_calls w @ map (first_named s) (take 1 (drop i (tests s)))"
    using lt by (simp add: first_named_tests [OF t0(1)] take_Suc_conv_app_nth hd_drop_conv_nth
        take_Suc Cons_nth_drop_Suc [symmetric])
  moreover have "map (first_named s) (take 1 (drop i (tests s))) = take 1 (drop i (tests s))"
  proof (rule map_idI)
    fix t
    assume "t \<in> set (take 1 (drop i (tests s)))"
    then have "t \<in> set (tests s)" by (meson in_set_dropD in_set_takeD)
    then have "t \<in> set (take (length (tests s)) (tests s))" by simp
    with first_named_distinct [OF 0(2), of "length (tests s)"] show "first_named s t = t"
      by (metis map_eq_conv map_ident take_all order_refl list.map_id)
  qed
  ultimately have "DoWork_calls w' = DoWork_calls w @ take (Suc j - i) (drop i (tests s))"
    using ij by simp
  moreover from run lt have "RunAll_loop b i passed s w = Inl (AssertionFailed, w')"
    by (simp add: RunAll_loop.simps [of b i passed s w])
  ultimately show ?case by blast
next
  case (Suc d)
  let ?s0 = "ResetFlags s"
  from Suc(2) have ij: "i < j" by simp
  with Suc.prems(5) have lt: "i < length (tests s)" by simp
  have t0: "tests ?s0 = tests s" "testStatus ?s0 = testStatus s" "GetTestNames ?s0 = GetTestNames s"
    by (simp_all add: ResetFlags_def GetTestNames_def)
  have cv0: "case_verdict ?s0 = case_verdict s" "case_TestEqual_fails ?s0 = case_TestEqual_fails s"
    by (rule case_verdict_tests, rule t0(1))+
  from lt Suc.prems(3) have ne: "i \<noteq> INT_MAX" by simp
  from lt Suc.prems(6) obtain v where v: "case_verdict s i = Some v" by auto
  from ij Suc.prems(8) have nf: "\<not> case_TestEqual_fails s i" by simp
  from Suc.prems(1,2,3) lt t0 have pre: "distinct (GetTestNames ?s0)"
    "length (testStatus ?s0) = length (tests ?s0)" "length (tests ?s0) \<le> INT_MAX"
    "i < length (tests ?s0)"
    by simp_all
  from v nf cv0 have pre2: "case_verdict ?s0 i = Some v"
    "NDEBUG b \<or> \<not> case_TestEqual_fails ?s0 i"
    by simp_all
  from RunTest_assertions [OF pre pre2, of w] obtain s1 w1
    where run: "RunTest b (Name (tests ?s0 ! i)) ?s0 w = Inr (v, s1, w1)"
    by auto
  from RunTest_step [OF pre(1,3,4) run] t0
  have s1: "tests s1 = tests s" "testStatus s1 = (testStatus s)[i := if v then PASSED else FAILED]"
    "DoWork_calls w1 = DoWork_calls w @ [tests s ! i]"
    by simp_all
  from s1(1) have cv1: "case_verdict s1 = case_verdict s"
    "case_TestEqual_fails s1 = case_TestEqual_fails s"
    by (rule case_verdict_tests)+
  from s1(1) Suc.prems(1) have d1: "distinct (GetTestNames s1)" by (simp add: GetTestNames_def)
  from s1 Suc.prems(2) have l1: "length (testStatus s1) = length (tests s1)" by simp
  from s1 Suc.prems(3) have m1: "length (tests s1) \<le> INT_MAX" by simp
  from ij have i1: "i + 1 \<le> j" by simp
  from s1 Suc.prems(5) have j1: "j < length (tests s1)" by simp
  from Suc(2) have dd: "d = j - (i + 1)" by simp
  from Suc.prems(6,7,8) s1(1) cv1 have a1: "\<forall>k<length (tests s1). case_verdict s1 k \<noteq> None"
    "case_TestEqual_fails s1 j" "\<forall>k<j. i + 1 \<le> k \<longrightarrow> \<not> case_TestEqual_fails s1 k"
    by simp_all
  from Suc(1) [OF dd d1 l1 m1 i1 j1 a1, of "passed + (if v then 1 else 0)" w1] obtain w'
    where rest: "RunAll_loop b (i + 1) (passed + (if v then 1 else 0)) s1 w1 = Inl (AssertionFailed, w')"
      and calls: "DoWork_calls w' = DoWork_calls w1 @ take (Suc j - (i + 1)) (drop (i + 1) (tests s1))"
    by blast
  from lt ne run rest have whole: "RunAll_loop b i passed s w = Inl (AssertionFailed, w')"
    by (simp add: RunAll_loop.simps [of b i passed s w])
  from lt have drt: "drop i (tests s) = tests s ! i # drop (Suc i) (tests s)"
    by (simp add: Cons_nth_drop_Suc)
  from ij have "Suc j - i = Suc (Suc j - (i + 1))" by simp
  with calls s1(1,3) drt have "DoWork_calls w' = DoWork_calls w @ take (Suc j - i) (drop i (tests s))"
    by simp
  with whole show ?case by blast
qed

text \<open>
  C5 (as amended). A failed \<^verbatim>\<open>TestTrue\<close> or \<^verbatim>\<open>TestFalse\<close> never ends the process; a failed
  \<^verbatim>\<open>TestEqual\<close> ends it exactly in a build with assertions. For every suite and every
  action: compiled with \<^verbatim>\<open>NDEBUG\<close>, \<^verbatim>\<open>RunAll\<close> is never ended by an assertion. For a suite
  with distinct case names (as many outcomes as cases, at most \<^verbatim>\<open>INT_MAX\<close>) whose actions all
  have a verdict, that is, actions that make assertions, call \<^verbatim>\<open>GetTestNames\<close> and
  \<^verbatim>\<open>GetCurrentRunningTest\<close>, and write to \<^verbatim>\<open>std::cerr\<close> or the log, as the macros
  \<^verbatim>\<open>TEST_TRUE\<close>, \<^verbatim>\<open>TEST_FALSE\<close> and \<^verbatim>\<open>TEST_TRUE_OR_QUIT\<close> do:

  \<^item> compiled with \<^verbatim>\<open>NDEBUG\<close>, or when no \<^verbatim>\<open>TestEqual\<close> finds a mismatch, \<^verbatim>\<open>RunAll\<close> returns,
    every case has been run once, a case with a failed assertion has the outcome \<^verbatim>\<open>FAILED\<close>
    and every other case \<^verbatim>\<open>PASSED\<close>, and the result says whether all passed;

  \<^item> compiled with assertions, when \<open>j\<close> is the first case in which a \<^verbatim>\<open>TestEqual\<close> finds a
    mismatch, \<^verbatim>\<open>RunAll\<close> ends the process at that \<^verbatim>\<open>assert(false)\<close>: the cases up to \<open>j\<close>
    have been run and the cases after \<open>j\<close> never are.
\<close>

theorem failed_assertions_are_recorded:
  assumes "distinct (GetTestNames s)" and "length (testStatus s) = length (tests s)"
    and "length (tests s) \<le> INT_MAX"
  shows "(NDEBUG b \<longrightarrow> (\<forall>s0 w0 w'. RunAll b s0 w0 \<noteq> Inl (AssertionFailed, w'))) \<and>
         ((\<forall>i<length (tests s). case_verdict s i \<noteq> None) \<longrightarrow>
          (if NDEBUG b \<or> (\<forall>i<length (tests s). \<not> case_TestEqual_fails s i)
           then \<exists>s' w'.
                  RunAll b s w =
                    Inr (\<forall>i<length (tests s). case_verdict s i = Some True, s', w') \<and>
                  DoWork_calls w' = DoWork_calls w @ tests s \<and>
                  testStatus s' =
                    map (\<lambda>i. if case_verdict s i = Some True then PASSED else FAILED)
                      [0..<length (tests s)]
           else \<exists>j w'.
                  j < length (tests s) \<and> case_TestEqual_fails s j \<and>
                  (\<forall>i<j. \<not> case_TestEqual_fails s i) \<and>
                  RunAll b s w = Inl (AssertionFailed, w') \<and>
                  DoWork_calls w' = DoWork_calls w @ take (Suc j) (tests s)))"
proof (intro conjI impI allI)
  fix s0 w0 w'
  assume nd: "NDEBUG b"
  show "RunAll b s0 w0 \<noteq> Inl (AssertionFailed, w')"
  proof
    assume "RunAll b s0 w0 = Inl (AssertionFailed, w')"
    then have "RunAll_loop b 0 0 s0 w0 = Inl (AssertionFailed, w')" by (simp add: RunAll_def)
    from RunAll_loop_never_asserts [OF this nd] show False by simp
  qed
next
  assume vd: "\<forall>i<length (tests s). case_verdict s i \<noteq> None"
  let ?f = "\<lambda>i. if case_verdict s i = Some True then PASSED else FAILED"
  show "if NDEBUG b \<or> (\<forall>i<length (tests s). \<not> case_TestEqual_fails s i)
           then \<exists>s' w'.
                  RunAll b s w =
                    Inr (\<forall>i<length (tests s). case_verdict s i = Some True, s', w') \<and>
                  DoWork_calls w' = DoWork_calls w @ tests s \<and>
                  testStatus s' = map ?f [0..<length (tests s)]
           else \<exists>j w'.
                  j < length (tests s) \<and> case_TestEqual_fails s j \<and>
                  (\<forall>i<j. \<not> case_TestEqual_fails s i) \<and>
                  RunAll b s w = Inl (AssertionFailed, w') \<and>
                  DoWork_calls w' = DoWork_calls w @ take (Suc j) (tests s)"
  proof (cases "NDEBUG b \<or> (\<forall>i<length (tests s). \<not> case_TestEqual_fails s i)")
    case True
    from RunAll_loop_assertions [OF assms(1-3) _ vd True, of 0 0 w] obtain r s' w'
      where loop: "RunAll_loop b 0 0 s w = Inr (r, s', w')"
        and st: "testStatus s' = map ?f [0..<length (tests s)]"
      by auto
    from RunAll_loop_spec [OF assms(1-3) _ loop]
    have 1: "length (testStatus s') = length (tests s)"
      "DoWork_calls w' = DoWork_calls w @ tests s"
      "r = (unat (0 + of_nat (length (filter (\<lambda>x. x = PASSED) (testStatus s'))) :: 32 word)
            = length (tests s))"
      by simp_all
    have "length (filter (\<lambda>x. x = PASSED) (testStatus s')) \<le> length (tests s)"
      using length_filter_le [of "\<lambda>x. x = PASSED" "testStatus s'"] 1(1) by simp
    from word_count_exact [OF this assms(3)] 1(3)
    have "r = (length (filter (\<lambda>x. x = PASSED) (testStatus s')) = length (testStatus s'))"
      by (simp add: 1(1))
    then have "r = (\<forall>st\<in>set (testStatus s'). st = PASSED)"
      by (simp add: count_all_iff)
    with st have "r = (\<forall>i<length (tests s). case_verdict s i = Some True)"
      by auto
    with loop st 1(2) True show ?thesis
      by (auto simp: RunAll_def)
  next
    case False
    then have nd: "\<not> NDEBUG b" and "\<exists>j. j < length (tests s) \<and> case_TestEqual_fails s j"
      by auto
    then obtain j where j: "j < length (tests s) \<and> case_TestEqual_fails s j"
      and least: "\<forall>i<j. \<not> (i < length (tests s) \<and> case_TestEqual_fails s i)"
      using exists_least_iff [of "\<lambda>j. j < length (tests s) \<and> case_TestEqual_fails s j"] by auto
    from j least have first: "\<forall>i<j. \<not> case_TestEqual_fails s i" by auto
    then have first': "\<forall>k<j. 0 \<le> k \<longrightarrow> \<not> case_TestEqual_fails s k" by simp
    from j have jl: "j < length (tests s)" and jf: "case_TestEqual_fails s j" by simp_all
    from RunAll_loop_aborts [OF assms(1-3) _ jl vd nd jf first', of 0 w] obtain w'
      where "RunAll_loop b 0 0 s w = Inl (AssertionFailed, w')"
        "DoWork_calls w' = DoWork_calls w @ take (Suc j) (tests s)"
      by auto
    with False jl jf first show ?thesis
      by (auto simp: RunAll_def)
  qed
qed

theorem failed_assertions_are_recorded_witness:
  "(\<exists>s' w'. RunAll build_assertions suite_ab world0 = Inr (False, s', w') \<and>
      DoWork_calls w' = tests suite_ab \<and> testStatus s' = [FAILED, PASSED]) \<and>
   (\<exists>s' w'. RunAll build_assertions suite_macros world0 = Inr (False, s', w') \<and>
      DoWork_calls w' = tests suite_macros \<and> testStatus s' = [FAILED, PASSED]) \<and>
   (\<exists>s' w'. RunAll build_NDEBUG suite_eq world0 = Inr (False, s', w') \<and>
      DoWork_calls w' = tests suite_eq \<and> testStatus s' = [FAILED, PASSED]) \<and>
   (\<exists>w'. RunAll build_assertions suite_eq world0 = Inl (AssertionFailed, w') \<and>
      DoWork_calls w' = take 1 (tests suite_eq))"
proof (intro conjI)
  have 1: "distinct (GetTestNames suite_ab)" "distinct (GetTestNames suite_eq)"
    "distinct (GetTestNames suite_macros)"
    by (simp_all add: suite_ab_def suite_eq_def suite_macros_def GetTestNames_def)
  have 2: "length (testStatus suite_ab) = length (tests suite_ab)"
    "length (testStatus suite_eq) = length (tests suite_eq)"
    "length (testStatus suite_macros) = length (tests suite_macros)"
    by (simp_all add: suite_ab_def suite_eq_def suite_macros_def)
  have 3: "length (tests suite_ab) \<le> INT_MAX" "length (tests suite_eq) \<le> INT_MAX"
    "length (tests suite_macros) \<le> INT_MAX"
    by (simp_all add: suite_ab_def suite_eq_def suite_macros_def INT_MAX_def)
  have len: "length (tests suite_ab) = Suc (Suc 0)" "length (tests suite_eq) = Suc (Suc 0)"
    "length (tests suite_macros) = Suc (Suc 0)"
    by (simp_all add: suite_ab_def suite_eq_def suite_macros_def)
  have ab: "case_verdict suite_ab 0 = Some False" "case_verdict suite_ab (Suc 0) = Some True"
    "\<not> case_TestEqual_fails suite_ab 0" "\<not> case_TestEqual_fails suite_ab (Suc 0)"
    by (simp_all add: case_verdict_def case_TestEqual_fails_def suite_ab_def GetTestNames_def)
  have eq: "case_verdict suite_eq 0 = Some False" "case_verdict suite_eq (Suc 0) = Some True"
    "case_TestEqual_fails suite_eq 0" "\<not> case_TestEqual_fails suite_eq (Suc 0)"
    by (simp_all add: case_verdict_def case_TestEqual_fails_def suite_eq_def GetTestNames_def)
  have ma: "case_verdict suite_macros 0 = Some False" "case_verdict suite_macros (Suc 0) = Some True"
    "\<not> case_TestEqual_fails suite_macros 0" "\<not> case_TestEqual_fails suite_macros (Suc 0)"
    by (simp_all add: case_verdict_def case_TestEqual_fails_def suite_macros_def GetTestNames_def
        TEST_TRUE_def TEST_FALSE_def macro_report_def at_index_def)
  have v_suite_ab_build_assertions: "\<forall>i<length (tests suite_ab). case_verdict suite_ab i \<noteq> None"
    by (auto simp: len ab less_Suc_eq)
  have c_suite_ab_build_assertions: "NDEBUG build_assertions \<or> (\<forall>i<length (tests suite_ab). \<not> case_TestEqual_fails suite_ab i)"
    by (auto simp: len ab less_Suc_eq)
  have r_suite_ab_build_assertions: "(\<forall>i<length (tests suite_ab). case_verdict suite_ab i = Some True) = False"
    by (auto simp: len ab less_Suc_eq)
  from c_suite_ab_build_assertions
    failed_assertions_are_recorded [OF 1(1) 2(1) 3(1), of build_assertions world0, THEN conjunct2, THEN mp,
      OF v_suite_ab_build_assertions]
  have "\<exists>s' w'.
          RunAll build_assertions suite_ab world0 =
            Inr (\<forall>i<length (tests suite_ab). case_verdict suite_ab i = Some True, s', w') \<and>
          DoWork_calls w' = DoWork_calls world0 @ tests suite_ab \<and>
          testStatus s' =
            map (\<lambda>i. if case_verdict suite_ab i = Some True then PASSED else FAILED)
              [0..<length (tests suite_ab)]"
    by (simp only: if_True)
  then show "\<exists>s' w'. RunAll build_assertions suite_ab world0 = Inr (False, s', w') \<and>
      DoWork_calls w' = tests suite_ab \<and> testStatus s' = [FAILED, PASSED]"
    unfolding r_suite_ab_build_assertions by (simp add: len ab world0_def)
  have v_suite_macros_build_assertions: "\<forall>i<length (tests suite_macros). case_verdict suite_macros i \<noteq> None"
    by (auto simp: len ma less_Suc_eq)
  have c_suite_macros_build_assertions: "NDEBUG build_assertions \<or> (\<forall>i<length (tests suite_macros). \<not> case_TestEqual_fails suite_macros i)"
    by (auto simp: len ma less_Suc_eq)
  have r_suite_macros_build_assertions: "(\<forall>i<length (tests suite_macros). case_verdict suite_macros i = Some True) = False"
    by (auto simp: len ma less_Suc_eq)
  from c_suite_macros_build_assertions
    failed_assertions_are_recorded [OF 1(3) 2(3) 3(3), of build_assertions world0, THEN conjunct2, THEN mp,
      OF v_suite_macros_build_assertions]
  have "\<exists>s' w'.
          RunAll build_assertions suite_macros world0 =
            Inr (\<forall>i<length (tests suite_macros). case_verdict suite_macros i = Some True, s', w') \<and>
          DoWork_calls w' = DoWork_calls world0 @ tests suite_macros \<and>
          testStatus s' =
            map (\<lambda>i. if case_verdict suite_macros i = Some True then PASSED else FAILED)
              [0..<length (tests suite_macros)]"
    by (simp only: if_True)
  then show "\<exists>s' w'. RunAll build_assertions suite_macros world0 = Inr (False, s', w') \<and>
      DoWork_calls w' = tests suite_macros \<and> testStatus s' = [FAILED, PASSED]"
    unfolding r_suite_macros_build_assertions by (simp add: len ma world0_def)
  have v_suite_eq_build_NDEBUG: "\<forall>i<length (tests suite_eq). case_verdict suite_eq i \<noteq> None"
    by (auto simp: len eq less_Suc_eq)
  have c_suite_eq_build_NDEBUG: "NDEBUG build_NDEBUG \<or> (\<forall>i<length (tests suite_eq). \<not> case_TestEqual_fails suite_eq i)"
    by (simp add: build_NDEBUG_def)
  have r_suite_eq_build_NDEBUG: "(\<forall>i<length (tests suite_eq). case_verdict suite_eq i = Some True) = False"
    by (auto simp: len eq less_Suc_eq)
  from c_suite_eq_build_NDEBUG
    failed_assertions_are_recorded [OF 1(2) 2(2) 3(2), of build_NDEBUG world0, THEN conjunct2, THEN mp,
      OF v_suite_eq_build_NDEBUG]
  have "\<exists>s' w'.
          RunAll build_NDEBUG suite_eq world0 =
            Inr (\<forall>i<length (tests suite_eq). case_verdict suite_eq i = Some True, s', w') \<and>
          DoWork_calls w' = DoWork_calls world0 @ tests suite_eq \<and>
          testStatus s' =
            map (\<lambda>i. if case_verdict suite_eq i = Some True then PASSED else FAILED)
              [0..<length (tests suite_eq)]"
    by (simp only: if_True)
  then show "\<exists>s' w'. RunAll build_NDEBUG suite_eq world0 = Inr (False, s', w') \<and>
      DoWork_calls w' = tests suite_eq \<and> testStatus s' = [FAILED, PASSED]"
    unfolding r_suite_eq_build_NDEBUG by (simp add: len eq world0_def)
  have v_eq: "\<forall>i<length (tests suite_eq). case_verdict suite_eq i \<noteq> None"
    by (auto simp: len eq less_Suc_eq)
  have c_eq: "\<not> (NDEBUG build_assertions \<or>
      (\<forall>i<length (tests suite_eq). \<not> case_TestEqual_fails suite_eq i))"
    using eq(3) by (auto simp: len build_assertions_def)
  from c_eq
    failed_assertions_are_recorded [OF 1(2) 2(2) 3(2), of build_assertions world0, THEN conjunct2,
      THEN mp, OF v_eq]
  have "\<exists>j w'.
          j < length (tests suite_eq) \<and> case_TestEqual_fails suite_eq j \<and>
          (\<forall>i<j. \<not> case_TestEqual_fails suite_eq i) \<and>
          RunAll build_assertions suite_eq world0 = Inl (AssertionFailed, w') \<and>
          DoWork_calls w' = DoWork_calls world0 @ take (Suc j) (tests suite_eq)"
    by (simp only: if_False)
  then obtain j w' where j: "j < length (tests suite_eq)" "case_TestEqual_fails suite_eq j"
    and run: "RunAll build_assertions suite_eq world0 = Inl (AssertionFailed, w')"
      "DoWork_calls w' = DoWork_calls world0 @ take (Suc j) (tests suite_eq)"
    by blast
  from j eq(4) have "j = 0" by (cases j) (auto simp: len)
  with run show "\<exists>w'. RunAll build_assertions suite_eq world0 = Inl (AssertionFailed, w') \<and>
      DoWork_calls w' = take 1 (tests suite_eq)"
    by (simp add: world0_def)
qed

text \<open>
  C5 as stated fails: compiled with assertions, the mismatch of \<^verbatim>\<open>TestEqual(5, 6)\<close> in case
  "a" ends the process at \<^verbatim>\<open>assert(false)\<close>; \<^verbatim>\<open>RunAll\<close> does not return and case "b" is
  never run.
\<close>

theorem TestEqual_failure_ends_the_run:
  "RunAll build_assertions suite_eq world0 =
     Inl (AssertionFailed,
          world0\<lparr>cerr := ''In:a'' @ TEXT_RED @ [ENDLINE] @
                   ''Expected value to be 6 but it was 5'' @ [ENDLINE, ENDLINE],
                 DoWork_calls := [\<lparr>Name = ''a'', Func = Call_TestEqual_int 5 6 (\<lambda>r. Return)\<rparr>]\<rparr>)"
  by (simp add: RunAll_def RunAll_loop.simps RunTest_def DoWork_def ResetFlags_def
      TestEqual_int_def TestEqual_mismatch_def TestEqual_text_def assert_aborts_def at_index_def
      GetTestNames_def GetCurrentRunningTest_def dec_int_5 dec_int_6
      static_cast_int_def INT_MAX_def suite_eq_def world0_def build_assertions_def Let_def)

section \<open>Running all registered classes\<close>

lemma erase_simps [simp]:
  "erase (Inl (e, w)) = Inl e"
  "erase (Inr (r, s, w)) = Inr (r, s)"
  by (simp_all add: erase_def)

lemma erase_Inl: "erase x = Inl e \<longleftrightarrow> (\<exists>w. x = Inl (e, w))"
  by (auto simp: erase_def split: sum.splits)

lemma erase_Inr: "erase x = Inr (r, s) \<longleftrightarrow> (\<exists>w. x = Inr (r, s, w))"
  by (auto simp: erase_def split: sum.splits)

lemma erase_bind:
  assumes "erase x = erase y"
    and "\<And>r s w w2. erase (f r s w) = erase (g r s w2)"
  shows "erase (case x of Inl e \<Rightarrow> Inl e | Inr (r, s, w) \<Rightarrow> f r s w) =
         erase (case y of Inl e \<Rightarrow> Inl e | Inr (r, s, w) \<Rightarrow> g r s w)"
proof (cases x)
  case (Inl a)
  obtain e w where a: "a = (e, w)" by (cases a)
  with Inl assms(1) have "erase y = Inl e" by simp
  then obtain w2 where "y = Inl (e, w2)" unfolding erase_Inl by blast
  with Inl a show ?thesis by simp
next
  case (Inr c)
  obtain r s w where c: "c = (r, s, w)" by (cases c)
  with Inr assms(1) have "erase y = Inr (r, s)" by simp
  then obtain w2 where "y = Inr (r, s, w2)" unfolding erase_Inr by blast
  with Inr c assms(2) show ?thesis by simp
qed

lemma TestEqual_mismatch_erase:
  "erase (TestEqual_mismatch b x y s w) = erase (TestEqual_mismatch b x y s w2)"
  by (simp add: TestEqual_mismatch_def Let_def split: option.splits)

lemma TestEqual_erase:
  "erase (TestEqual_int b v e s w) = erase (TestEqual_int b v e s w2)"
  "erase (TestEqual_unsigned b v e s w) = erase (TestEqual_unsigned b v e s w2)"
  "erase (TestEqual_float b v e s w) = erase (TestEqual_float b v e s w2)"
  using TestEqual_mismatch_erase
  by (simp_all add: TestEqual_int_def TestEqual_unsigned_def TestEqual_float_def)

lemma exec_erase: "erase (exec b a s w) = erase (exec b a s w2)"
proof (induction a arbitrary: s w w2 rule: action_induct)
  case (TestTrue e k)
  then show ?case by (simp add: TestTrue_def)
next
  case (TestFalse e k)
  then show ?case by (simp add: TestFalse_def)
next
  case (TestEqual_int v e k)
  show ?case
    unfolding exec.simps
    by (rule erase_bind [OF TestEqual_erase(1)]) (rule TestEqual_int.IH)
next
  case (TestEqual_unsigned v e k)
  show ?case
    unfolding exec.simps
    by (rule erase_bind [OF TestEqual_erase(2)]) (rule TestEqual_unsigned.IH)
next
  case (TestEqual_float v e k)
  show ?case
    unfolding exec.simps
    by (rule erase_bind [OF TestEqual_erase(3)]) (rule TestEqual_float.IH)
next
  case (GetResult n k)
  then show ?case by (simp split: option.splits)
qed simp_all

lemma RunTest_erase: "erase (RunTest b name s w) = erase (RunTest b name s w2)"
proof -
  have post: "erase (case assign_at (testStatus s3) (currentRunningTest s3)
                        (if failed s3 then FAILED else PASSED) of
                   None \<Rightarrow> Inl (UndefinedBehaviour, w3)
                 | Some st \<Rightarrow> Inr (\<not> failed s3, s3\<lparr>testStatus := st\<rparr>, w3)) =
              erase (case assign_at (testStatus s3) (currentRunningTest s3)
                        (if failed s3 then FAILED else PASSED) of
                   None \<Rightarrow> Inl (UndefinedBehaviour, w4)
                 | Some st \<Rightarrow> Inr (\<not> failed s3, s3\<lparr>testStatus := st\<rparr>, w4))"
    for s3 w3 w4 and u :: unit
    by (simp split: option.splits)
  show ?thesis
    unfolding RunTest_def Let_def DoWork_def
    by (auto intro!: erase_bind exec_erase post)
qed

lemma RunAllTests_cases_erase:
  "erase (RunAllTests_cases b os names n s w) = erase (RunAllTests_cases b os2 names n s w2)"
proof (induction names arbitrary: n s w w2)
  case Nil
  then show ?case by simp
next
  case (Cons name rest)
  show ?case
    unfolding RunAllTests_cases.simps Let_def
    by (rule erase_bind [OF RunTest_erase]) (rule Cons.IH)
qed












end
